theory Spec2Isabelle
  imports Main "HOL-Library.AList" "HOL-Library.Multiset"
begin

section \<open>Data model of the WhatsAppManager\<close>

text \<open>
  The manager (\<^verbatim>\<open>src/services/WhatsAppManager.js\<close>) keeps a JavaScript \<^verbatim>\<open>Map\<close> from
  instance ids to mutable instance objects. A \<^verbatim>\<open>Map\<close> iterates in insertion order,
  \<^verbatim>\<open>set\<close> on a present key keeps the key's position and \<^verbatim>\<open>set\<close> on a new key appends:
  that is an association list under \<open>AList.update\<close> and \<open>AList.delete\<close>.

  Errors are JavaScript \<^verbatim>\<open>Error\<close> objects that the code tells apart by their message
  only (\<^verbatim>\<open>error.message.includes(...)\<close>), so an error is its message, and a function that
  can throw returns \<open>string + 'a\<close> with \<open>Inl\<close> the thrown message.

  The code is asynchronous. The model runs every function from its call to its return
  without another callback running at its suspension points; what the external
  MessagingClient and the file system answer is a parameter of each function.
\<close>

datatype status =
    Initializing | QrRequired | QrReady | Authenticating | Recovering | Authenticated
  | AuthFailed | AuthFailure | Disconnected | Ready | Failed

fun statusName :: "status \<Rightarrow> string" where
  "statusName Initializing = ''initializing''"
| "statusName QrRequired = ''qr_required''"
| "statusName QrReady = ''qr_ready''"
| "statusName Authenticating = ''authenticating''"
| "statusName Recovering = ''recovering''"
| "statusName Authenticated = ''authenticated''"
| "statusName AuthFailed = ''auth_failed''"
| "statusName AuthFailure = ''auth_failure''"
| "statusName Disconnected = ''disconnected''"
| "statusName Ready = ''ready''"
| "statusName Failed = ''failed''"

text \<open>
  The instance object. \<open>client\<close> is the handle of the MessagingClient the instance owns
  (a fresh number for every \<^verbatim>\<open>new Client\<close>). \<open>reconnectAttempts\<close> is \<open>None\<close> while the
  property is \<^verbatim>\<open>undefined\<close> (neither \<^verbatim>\<open>createInstance\<close> nor \<^verbatim>\<open>recoverInstance\<close> sets it);
  \<open>reconnecting\<close> and \<open>keepAliveInterval\<close> are only ever tested for truthiness, so
  \<^verbatim>\<open>undefined\<close> and \<^verbatim>\<open>null\<close> are \<open>False\<close>. The fields \<^verbatim>\<open>info\<close>, \<^verbatim>\<open>createdAt\<close>,
  \<^verbatim>\<open>lastActivity\<close> and \<^verbatim>\<open>authenticationAttempted\<close> are written but never read by a
  decision of the code and are left out.
\<close>

record instanceData =
  instId :: string
  client :: nat
  status :: status
  qr :: "string option"
  isRecovered :: bool
  hasValidAuth :: bool
  skipQR :: bool
  reconnecting :: bool
  reconnectAttempts :: "nat option"
  keepAliveInterval :: bool

record cache_entry =
  url :: "string option"
  timestamp :: int

datatype notification =
    InstanceStatusChanged string status
  | InstanceDestroyed string

datatype timer =
    RetryTimer string
  | ReconnectTimer string

text \<open>
  The manager object: the registry \<^verbatim>\<open>this.instances\<close>, the cache
  \<^verbatim>\<open>this.profilePicCache\<close>, the directories that exist under \<^verbatim>\<open>this.sessionsPath\<close>, the
  notifications sent with \<^verbatim>\<open>this.io.emit\<close>, the lookups sent to a client
  (\<^verbatim>\<open>getContactById\<close>, as pairs of instance id and contact id), the pending
  \<^verbatim>\<open>setTimeout\<close> callbacks that will call \<^verbatim>\<open>attemptAutoReconnection\<close> (\<open>RetryTimer\<close>: the
  guarded retry after a failed attempt; \<open>ReconnectTimer\<close>: the unguarded call after a
  failed health check), and the next fresh client handle.
\<close>

record manager =
  instances :: "(string \<times> instanceData) list"
  profilePicCache :: "(string \<times> cache_entry) list"
  sessionDirs :: "string list"
  emitted :: "notification list"
  clientCalls :: "(string \<times> string) list"
  scheduled :: "timer list"
  nextClient :: nat

definition maxReconnectAttempts :: nat where
  "maxReconnectAttempts = 8"

definition cacheExpiry :: int where
  "cacheExpiry = 30 * 60 * 1000"

definition getInstance :: "manager \<Rightarrow> string \<Rightarrow> instanceData option" where
  "getInstance m i = map_of (instances m) i"

definition setInstance :: "string \<Rightarrow> instanceData \<Rightarrow> manager \<Rightarrow> manager" where
  "setInstance i inst m = m\<lparr>instances := AList.update i inst (instances m)\<rparr>"

definition deleteInstance :: "string \<Rightarrow> manager \<Rightarrow> manager" where
  "deleteInstance i m = m\<lparr>instances := AList.delete i (instances m)\<rparr>"

definition newClient :: "manager \<Rightarrow> nat \<times> manager" where
  "newClient m = (nextClient m, m\<lparr>nextClient := Suc (nextClient m)\<rparr>)"

subsection \<open>createInstance\<close>

text \<open>
  \<^verbatim>\<open>const id = instanceId || uuidv4()\<close>: a missing argument (\<open>None\<close>) and the empty
  string are both falsy and replaced by the generated id \<open>uuid\<close>. The throw comes before
  any mutation; the \<^verbatim>\<open>catch\<close> only logs and rethrows.
\<close>

record create_result =
  cr_instanceId :: string
  cr_status :: status

definition createInstance ::
  "string \<Rightarrow> string option \<Rightarrow> manager \<Rightarrow> (string + create_result) \<times> manager" where
  "createInstance uuid instanceId m =
     (let i = (case instanceId of None \<Rightarrow> uuid | Some s \<Rightarrow> if s = [] then uuid else s) in
      if getInstance m i \<noteq> None then (Inl (''Instance '' @ i @ '' already exists''), m)
      else
        (let (c, m1) = newClient m;
             inst = \<lparr>instId = i, client = c, status = Initializing, qr = None,
                             isRecovered = False, hasValidAuth = False, skipQR = False,
                             reconnecting = False, reconnectAttempts = None,
                             keepAliveInterval = False\<rparr>
         in (Inr \<lparr>cr_instanceId = i, cr_status = Initializing\<rparr>, setInstance i inst m1)))"


text \<open>
  \<^verbatim>\<open>instance.field = value\<close> through the reference a function or closure holds: the
  object is the one registered under the id as long as nothing replaced or deleted it,
  and a write to an object that is no longer registered does not show in the registry.
\<close>

definition modifyInstance :: "string \<Rightarrow> (instanceData \<Rightarrow> instanceData) \<Rightarrow> manager \<Rightarrow> manager" where
  "modifyInstance i f m =
     (case getInstance m i of None \<Rightarrow> m | Some inst \<Rightarrow> setInstance i (f inst) m)"

definition attemptCount :: "instanceData \<Rightarrow> nat" where
  "attemptCount inst = (case reconnectAttempts inst of None \<Rightarrow> 0 | Some n \<Rightarrow> n)"

subsection \<open>getInstanceStatus and the prologue of every operation\<close>

definition getInstanceStatus :: "manager \<Rightarrow> string \<Rightarrow> string + instanceData" where
  "getInstanceStatus m i =
     (case getInstance m i of None \<Rightarrow> Inl ''Instance not found'' | Some inst \<Rightarrow> Inr inst)"

text \<open>
  \<^verbatim>\<open>sendMessage\<close>, \<^verbatim>\<open>getChats\<close>, \<^verbatim>\<open>getChatMessages\<close>, \<^verbatim>\<open>getContactProfile\<close> and the other
  operations all start with the same two checks.
\<close>

definition requireReady :: "manager \<Rightarrow> string \<Rightarrow> string + instanceData" where
  "requireReady m i =
     (case getInstance m i of
        None \<Rightarrow> Inl (''Instance '' @ i @ '' not found'')
      | Some inst \<Rightarrow>
          if status inst \<noteq> Ready
          then Inl (''Instance '' @ i @ '' is not ready. Current status: '' @ statusName (status inst))
          else Inr inst)"

text \<open>
  The operation closure of \<^verbatim>\<open>sendMessage\<close>; \<open>send\<close> is what the client's
  \<^verbatim>\<open>sendMessage\<close> answers: an error message or the id of the sent message.
\<close>

definition sendMessageOperation ::
  "(string + string) \<Rightarrow> string \<Rightarrow> manager \<Rightarrow> (string + string) \<times> manager" where
  "sendMessageOperation send i m =
     (case requireReady m i of
        Inl e \<Rightarrow> (Inl e, m)
      | Inr inst \<Rightarrow> (send, m))"

subsection \<open>Client events (setupClientEvents)\<close>

text \<open>
  \<^verbatim>\<open>setupClientEvents\<close> registers two handlers each for \<^verbatim>\<open>authenticated\<close>,
  \<^verbatim>\<open>auth_failure\<close> and \<^verbatim>\<open>disconnected\<close>; an event runs them in the order of registration.
  \<open>EvQr\<close> carries the data URL that \<^verbatim>\<open>qrcode.toDataURL\<close> produced, or \<open>None\<close> when it
  threw (the handler's \<^verbatim>\<open>catch\<close> then only logs). The room notifications of the handlers
  are not recorded.
\<close>

datatype client_event =
    EvQr "string option"
  | EvAuthenticated
  | EvAuthFailure string
  | EvDisconnected string
  | EvReady
  | EvMessage

fun firstHandler :: "client_event \<Rightarrow> instanceData \<Rightarrow> instanceData" where
  "firstHandler (EvQr dataUrl) inst =
     (let inst1 = (if skipQR inst \<and> hasValidAuth inst
                   then inst\<lparr>skipQR := False, hasValidAuth := False, status := QrRequired\<rparr>
                   else inst);
          inst2 = inst1\<lparr>status := QrReady\<rparr>
      in case dataUrl of None \<Rightarrow> inst2 | Some u \<Rightarrow> inst2\<lparr>qr := Some u\<rparr>)"
| "firstHandler EvAuthenticated inst =
     inst\<lparr>hasValidAuth := True, skipQR := True, status := Authenticated\<rparr>"
| "firstHandler (EvAuthFailure msg) inst =
     inst\<lparr>hasValidAuth := False, skipQR := False, status := AuthFailed\<rparr>"
| "firstHandler (EvDisconnected reason) inst =
     inst\<lparr>hasValidAuth := False, skipQR := False, status := Disconnected,
          keepAliveInterval := False\<rparr>"
| "firstHandler EvReady inst =
     inst\<lparr>status := Ready, qr := None, hasValidAuth := True, skipQR := True,
          keepAliveInterval := True\<rparr>"
| "firstHandler EvMessage inst = inst"

fun secondHandler :: "client_event \<Rightarrow> instanceData \<Rightarrow> instanceData" where
  "secondHandler EvAuthenticated inst = inst\<lparr>status := Authenticated\<rparr>"
| "secondHandler (EvAuthFailure msg) inst = inst\<lparr>status := AuthFailure\<rparr>"
| "secondHandler (EvDisconnected reason) inst =
     inst\<lparr>status := Disconnected, reconnectAttempts := Some 0\<rparr>"
| "secondHandler ev inst = inst"

definition clientEvent :: "string \<Rightarrow> client_event \<Rightarrow> manager \<Rightarrow> manager" where
  "clientEvent i ev m = modifyInstance i (\<lambda>x. secondHandler ev (firstHandler ev x)) m"

subsection \<open>recoverInstance, attemptSessionRecovery, executeWithRecovery\<close>

text \<open>
  What the outside answers during \<^verbatim>\<open>recoverInstance\<close>: whether \<^verbatim>\<open>hasValidSession\<close> finds
  authentication files, and whether \<^verbatim>\<open>client.initialize()\<close> resolves (\<open>None\<close>) or
  rejects with a message. The session directory exists when it is in \<open>sessionDirs\<close>.
  The \<^verbatim>\<open>catch\<close> deletes the registry entry and rethrows.
\<close>

record recover_env =
  validSession :: bool
  initializeRejects :: "string option"

definition recoverInstance :: "recover_env \<Rightarrow> string \<Rightarrow> manager \<Rightarrow> (string + unit) \<times> manager" where
  "recoverInstance env i m =
     (if i \<notin> set (sessionDirs m) then (Inr (), m)
      else
        (let hasAuth = validSession env;
             (c, m1) = newClient m;
             inst = \<lparr>instId = i, client = c,
                     status = (if hasAuth then Authenticating else Recovering), qr = None,
                     isRecovered = True, hasValidAuth = hasAuth, skipQR = hasAuth,
                     reconnecting = False, reconnectAttempts = None,
                     keepAliveInterval = False\<rparr>;
             m2 = setInstance i inst m1
         in case initializeRejects env of
              None \<Rightarrow> (Inr (), m2)
            | Some e \<Rightarrow>
                (Inl e, if getInstance m2 i \<noteq> None then deleteInstance i m2 else m2)))"

text \<open>
  \<^verbatim>\<open>attemptSessionRecovery\<close>: the error of \<^verbatim>\<open>instance.client.destroy()\<close> is caught and
  ignored, so the outcome of the teardown does not enter the result.
\<close>

definition attemptSessionRecovery :: "recover_env \<Rightarrow> string \<Rightarrow> manager \<Rightarrow> bool \<times> manager" where
  "attemptSessionRecovery env i m =
     (case getInstance m i of
        None \<Rightarrow> (False, m)
      | Some inst \<Rightarrow>
          (let m1 = modifyInstance i (\<lambda>x. x\<lparr>status := Recovering\<rparr>) m
           in case recoverInstance env i m1 of
                (Inr u, m2) \<Rightarrow> (True, m2)
              | (Inl e, m2) \<Rightarrow> (False, m2)))"

fun startsWith :: "string \<Rightarrow> string \<Rightarrow> bool" where
  "startsWith s [] = True"
| "startsWith [] (p # ps) = False"
| "startsWith (c # cs) (p # ps) = (c = p \<and> startsWith cs ps)"

fun includes_str :: "string \<Rightarrow> string \<Rightarrow> bool" where
  "includes_str [] pat = (pat = [])"
| "includes_str (c # cs) pat = (startsWith (c # cs) pat \<or> includes_str cs pat)"

definition isSessionError :: "string \<Rightarrow> bool" where
  "isSessionError msg =
     (includes_str msg ''Session closed'' \<or> includes_str msg ''Protocol error''
      \<or> includes_str msg ''Target closed'')"

definition recoveryFailedMessage :: "string \<Rightarrow> string" where
  "recoveryFailedMessage i =
     ''Session recovery failed for instance '' @ i @ ''. Please reinitialize the instance.''"

text \<open>
  \<^verbatim>\<open>executeWithRecovery\<close>. The operation is a closure over the manager and the client;
  what it does depends on the state it meets and on what the client answers at that
  call, so it takes the number of the call (0 the first execution, 1 the retry) and the
  manager. Beside the outcome and the manager the model returns how many times the
  operation was executed and how many times \<^verbatim>\<open>attemptSessionRecovery\<close> was called.
\<close>

definition executeWithRecovery ::
  "recover_env \<Rightarrow> string \<Rightarrow> (nat \<Rightarrow> manager \<Rightarrow> (string + 'a) \<times> manager) \<Rightarrow> manager
     \<Rightarrow> (string + 'a) \<times> manager \<times> nat \<times> nat" where
  "executeWithRecovery env i operation m =
     (case operation 0 m of
        (Inr r, m1) \<Rightarrow> (Inr r, m1, 1, 0)
      | (Inl e, m1) \<Rightarrow>
          if isSessionError e then
            (case attemptSessionRecovery env i m1 of
               (True, m2) \<Rightarrow> (case operation 1 m2 of (out, m3) \<Rightarrow> (out, m3, 2, 1))
             | (False, m2) \<Rightarrow> (Inl (recoveryFailedMessage i), m2, 1, 1))
          else (Inl e, m1, 1, 0))"

subsection \<open>reinitializeInstance, attemptAutoReconnection, the sweep\<close>

text \<open>
  What \<^verbatim>\<open>Promise.race([client.initialize(), timeout])\<close> yields in
  \<^verbatim>\<open>reinitializeInstance\<close>. The error of destroying the old client is caught and ignored.
\<close>

datatype init_outcome = InitResolves | InitRejects string | InitTimesOut

definition reinitializeInstance ::
  "init_outcome \<Rightarrow> string \<Rightarrow> manager \<Rightarrow> (string + instanceData) \<times> manager" where
  "reinitializeInstance init i m =
     (case getInstance m i of
        None \<Rightarrow> (Inl (''Instance '' @ i @ '' not found''), m)
      | Some inst \<Rightarrow>
          (let (c, m1) = newClient m;
               inst1 = inst\<lparr>client := c, status := Initializing, qr := None\<rparr>;
               m2 = setInstance i inst1 m1;
               failed = setInstance i (inst1\<lparr>status := Disconnected, reconnecting := False\<rparr>) m2
           in case init of
                InitResolves \<Rightarrow> (Inr inst1, m2)
              | InitRejects e \<Rightarrow> (Inl e, failed)
              | InitTimesOut \<Rightarrow> (Inl ''Initialize timeout after 120 seconds'', failed)))"

definition attemptAutoReconnection :: "init_outcome \<Rightarrow> string \<Rightarrow> manager \<Rightarrow> manager" where
  "attemptAutoReconnection init i m =
     (case getInstance m i of
        None \<Rightarrow> m
      | Some inst \<Rightarrow>
          if reconnecting inst then m
          else
            (let n = attemptCount inst + 1;
                 m1 = modifyInstance i (\<lambda>x. x\<lparr>reconnecting := True, reconnectAttempts := Some n\<rparr>) m
             in if n > maxReconnectAttempts then
                  (modifyInstance i (\<lambda>x. x\<lparr>status := Failed, reconnecting := False\<rparr>) m1)
                    \<lparr>emitted := emitted m1 @ [InstanceStatusChanged i Failed]\<rparr>
                else
                  (case reinitializeInstance init i m1 of
                     (Inr r, m2) \<Rightarrow>
                       modifyInstance i (\<lambda>x. x\<lparr>reconnectAttempts := Some 0, reconnecting := False\<rparr>) m2
                   | (Inl e, m2) \<Rightarrow>
                       (modifyInstance i (\<lambda>x. x\<lparr>reconnecting := False\<rparr>) m2)
                         \<lparr>scheduled := scheduled m2 @ [RetryTimer i]\<rparr>)))"

text \<open>
  The callback of the \<^verbatim>\<open>setTimeout\<close> that a failed attempt leaves behind:
  \<^verbatim>\<open>undefined < 8\<close> is false.
\<close>

definition retryTimerFires :: "init_outcome \<Rightarrow> string \<Rightarrow> manager \<Rightarrow> manager" where
  "retryTimerFires init i m =
     (let m1 = m\<lparr>scheduled := remove1 (RetryTimer i) (scheduled m)\<rparr>
      in case getInstance m1 i of
           None \<Rightarrow> m1
         | Some inst \<Rightarrow>
             (case reconnectAttempts inst of
                None \<Rightarrow> m1
              | Some n \<Rightarrow> if n < maxReconnectAttempts then attemptAutoReconnection init i m1 else m1))"

text \<open>
  One tick of the interval of \<^verbatim>\<open>startAutoReconnection\<close>. The loop visits the entries of
  the registry in order and reads each instance when it reaches it; \<open>init\<close> says, per
  id, how the reinitialize of that instance would end. The second component lists the
  ids for which \<^verbatim>\<open>attemptAutoReconnection\<close> was called, in order.
\<close>

definition sweepEligible :: "instanceData \<Rightarrow> bool" where
  "sweepEligible inst = (status inst = Disconnected \<and> hasValidAuth inst \<and> \<not> reconnecting inst)"

fun sweepLoop ::
  "(string \<Rightarrow> init_outcome) \<Rightarrow> string list \<Rightarrow> manager \<Rightarrow> string list \<Rightarrow> manager \<times> string list" where
  "sweepLoop init [] m called = (m, called)"
| "sweepLoop init (i # ids) m called =
     (case getInstance m i of
        None \<Rightarrow> sweepLoop init ids m called
      | Some inst \<Rightarrow>
          if sweepEligible inst
          then sweepLoop init ids (attemptAutoReconnection (init i) i m) (called @ [i])
          else sweepLoop init ids m called)"

definition autoReconnectionSweep ::
  "(string \<Rightarrow> init_outcome) \<Rightarrow> manager \<Rightarrow> manager \<times> string list" where
  "autoReconnectionSweep init m = sweepLoop init (map fst (instances m)) m []"

text \<open>
  The body of the health monitor's loop for one instance; \<open>healthy\<close> is the result of
  \<^verbatim>\<open>checkSessionHealth\<close>. A failed check schedules an unguarded reconnection attempt.
\<close>

definition healthCheck :: "bool \<Rightarrow> string \<Rightarrow> manager \<Rightarrow> manager" where
  "healthCheck healthy i m =
     (case getInstance m i of
        None \<Rightarrow> m
      | Some inst \<Rightarrow>
          if status inst = Ready \<and> \<not> healthy
          then (modifyInstance i (\<lambda>x. x\<lparr>status := Disconnected\<rparr>) m)
                 \<lparr>scheduled := scheduled m @ [ReconnectTimer i],
                  emitted := emitted m @ [InstanceStatusChanged i Disconnected]\<rparr>
          else m)"

definition reconnectTimerFires :: "init_outcome \<Rightarrow> string \<Rightarrow> manager \<Rightarrow> manager" where
  "reconnectTimerFires init i m =
     attemptAutoReconnection init i (m\<lparr>scheduled := remove1 (ReconnectTimer i) (scheduled m)\<rparr>)"

subsection \<open>destroyInstance\<close>

text \<open>
  \<open>destroyRejects\<close> is the message \<^verbatim>\<open>await instance.client.destroy()\<close> rejects with, or
  \<open>None\<close> when it resolves. The call stands directly in the outer \<^verbatim>\<open>try\<close>, whose
  \<^verbatim>\<open>catch\<close> logs and rethrows.
\<close>

definition destroyInstance :: "string option \<Rightarrow> string \<Rightarrow> manager \<Rightarrow> (string + unit) \<times> manager" where
  "destroyInstance destroyRejects i m =
     (case getInstance m i of
        None \<Rightarrow> (Inl (''Instance '' @ i @ '' not found''), m)
      | Some inst \<Rightarrow>
          (case destroyRejects of
             Some e \<Rightarrow> (Inl e, m)
           | None \<Rightarrow>
               (let m1 = deleteInstance i m;
                    m2 = (if i \<in> set (sessionDirs m1)
                          then m1\<lparr>sessionDirs := removeAll i (sessionDirs m1)\<rparr> else m1)
                in (Inr (), m2\<lparr>emitted := emitted m2 @ [InstanceDestroyed i]\<rparr>))))"

subsection \<open>Profile pictures: getProfilePicWithCache, getMultipleProfilePics\<close>

text \<open>
  What the outside answers to the pipeline: per contact id, what
  \<^verbatim>\<open>Promise.race([profilePicPromise, timeoutPromise])\<close> yields and the value of
  \<^verbatim>\<open>Date.now()\<close> when it settles; per batch (numbered from 1 as \<^verbatim>\<open>batchNumber\<close>), the
  value of \<^verbatim>\<open>Date.now()\<close> when the batch starts and whether the batch timer of
  \<^verbatim>\<open>timeout * 2\<close> wins the race against \<^verbatim>\<open>Promise.allSettled\<close>. A picture url that the
  client reports as \<^verbatim>\<open>undefined\<close> or \<^verbatim>\<open>null\<close> is \<open>None\<close>.
\<close>

datatype lookup_outcome = LookupResolves "string option" | LookupRejects string | LookupTimesOut

record pic_env =
  lookup :: "string \<Rightarrow> lookup_outcome"
  settledAt :: "string \<Rightarrow> int"
  batchStart :: "nat \<Rightarrow> int"
  batchTimesOut :: "nat \<Rightarrow> bool"

definition cacheKey :: "string \<Rightarrow> string \<Rightarrow> string" where
  "cacheKey i c = i @ '':'' @ c"

definition setCache :: "string \<Rightarrow> cache_entry \<Rightarrow> manager \<Rightarrow> manager" where
  "setCache k e m = m\<lparr>profilePicCache := AList.update k e (profilePicCache m)\<rparr>"

text \<open>
  \<^verbatim>\<open>getProfilePicWithCache\<close> runs synchronously up to its first \<^verbatim>\<open>await\<close>: the cache
  check, the check of the instance, and the call of the client. \<open>startProfilePic\<close> is
  that part (\<open>Done\<close>: the function has returned; \<open>Pending\<close>: it waits for the client);
  \<open>settleProfilePic\<close> is the rest, after the race has settled.
\<close>

datatype started = Done "string option" | Pending

definition startProfilePic :: "int \<Rightarrow> string \<Rightarrow> string \<Rightarrow> manager \<Rightarrow> started \<times> manager" where
  "startProfilePic now i c m =
     (let cached = map_of (profilePicCache m) (cacheKey i c);
          valid = (case cached of None \<Rightarrow> False | Some e \<Rightarrow> now - timestamp e < cacheExpiry)
      in if valid then (Done (case cached of None \<Rightarrow> None | Some e \<Rightarrow> url e), m)
         else
           (case getInstance m i of
              None \<Rightarrow> (Done None, m)
            | Some inst \<Rightarrow>
                if status inst \<noteq> Ready then (Done None, m)
                else (Pending, m\<lparr>clientCalls := clientCalls m @ [(i, c)]\<rparr>)))"

definition settleProfilePic :: "pic_env \<Rightarrow> string \<Rightarrow> string \<Rightarrow> manager \<Rightarrow> string option \<times> manager" where
  "settleProfilePic env i c m =
     (case lookup env c of
        LookupResolves u \<Rightarrow> (u, setCache (cacheKey i c) \<lparr>url = u, timestamp = settledAt env c\<rparr> m)
      | LookupRejects e \<Rightarrow> (None, setCache (cacheKey i c) \<lparr>url = None, timestamp = settledAt env c\<rparr> m)
      | LookupTimesOut \<Rightarrow> (None, setCache (cacheKey i c) \<lparr>url = None, timestamp = settledAt env c\<rparr> m))"

definition getProfilePicWithCache ::
  "pic_env \<Rightarrow> int \<Rightarrow> string \<Rightarrow> string \<Rightarrow> manager \<Rightarrow> string option \<times> manager" where
  "getProfilePicWithCache env now i c m =
     (case startProfilePic now i c m of
        (Done u, m1) \<Rightarrow> (u, m1)
      | (Pending, m1) \<Rightarrow> settleProfilePic env i c m1)"

text \<open>
  One batch. \<^verbatim>\<open>batch.map(async ...)\<close> starts every lookup of the batch before any of
  them settles, so all cache checks of a batch see the cache as the batch found it.
  When the batch settles, the results are written to the result map in the order of
  the batch. When the batch timer wins, the \<^verbatim>\<open>catch\<close> maps every id of the batch to
  \<^verbatim>\<open>null\<close>; the lookups still pending are abandoned and their later cache writes are not
  part of this call. The mapper catches every error, so no promise of a batch rejects.
\<close>

fun startAll :: "int \<Rightarrow> string \<Rightarrow> string list \<Rightarrow> manager \<Rightarrow> started list \<times> manager" where
  "startAll now i [] m = ([], m)"
| "startAll now i (c # cs) m =
     (case startProfilePic now i c m of
        (s, m1) \<Rightarrow> (case startAll now i cs m1 of (ss, m2) \<Rightarrow> (s # ss, m2)))"

fun settleAll ::
  "pic_env \<Rightarrow> string \<Rightarrow> (string \<times> started) list \<Rightarrow> manager \<Rightarrow> (string \<times> string option) list \<times> manager" where
  "settleAll env i [] m = ([], m)"
| "settleAll env i ((c, Done u) # rest) m =
     (case settleAll env i rest m of (rs, m1) \<Rightarrow> ((c, u) # rs, m1))"
| "settleAll env i ((c, Pending) # rest) m =
     (case settleProfilePic env i c m of
        (u, m1) \<Rightarrow> (case settleAll env i rest m1 of (rs, m2) \<Rightarrow> ((c, u) # rs, m2)))"

type_synonym picmap = "(string \<times> string option) list"

definition setAll :: "(string \<times> string option) list \<Rightarrow> picmap \<Rightarrow> picmap" where
  "setAll rs pm = foldl (\<lambda>acc (c, u). AList.update c u acc) pm rs"

definition processBatch ::
  "pic_env \<Rightarrow> string \<Rightarrow> nat \<Rightarrow> string list \<Rightarrow> picmap \<times> manager \<Rightarrow> picmap \<times> manager" where
  "processBatch env i batchNumber batch s =
     (case s of (pm, m) \<Rightarrow>
        (case startAll (batchStart env batchNumber) i batch m of
           (ss, m1) \<Rightarrow>
             if batchTimesOut env batchNumber
             then (setAll (map (\<lambda>c. (c, None)) batch) pm, m1)
             else (case settleAll env i (zip batch ss) m1 of
                     (rs, m2) \<Rightarrow> (setAll rs pm, m2))))"

text \<open>
  \<^verbatim>\<open>for (let i = 0; i < contactIds.length; i += batchSize)\<close>. With \<^verbatim>\<open>batchSize = 0\<close> the
  loop never ends, so the loop is a partial function and \<open>None\<close> is "does not return".
\<close>

partial_function (option) batchLoop ::
  "pic_env \<Rightarrow> string \<Rightarrow> string list \<Rightarrow> nat \<Rightarrow> nat \<Rightarrow> picmap \<times> manager \<Rightarrow> (picmap \<times> manager) option" where
  "batchLoop env i contactIds batchSize k s =
     (if k < length contactIds
      then batchLoop env i contactIds batchSize (k + batchSize)
             (processBatch env i (k div batchSize + 1) (take batchSize (drop k contactIds)) s)
      else Some s)"

declare batchLoop.simps [code]

definition getMultipleProfilePics ::
  "pic_env \<Rightarrow> string \<Rightarrow> string list \<Rightarrow> nat \<Rightarrow> manager \<Rightarrow> (picmap \<times> manager) option" where
  "getMultipleProfilePics env i contactIds batchSize m = batchLoop env i contactIds batchSize 0 ([], m)"

subsection \<open>getChats and the query parameters of the chats route\<close>

text \<open>
  \<^verbatim>\<open>Array.prototype.slice(start, end)\<close> on integer arguments: a negative index counts
  from the end, both indices are clamped to the array.
\<close>

definition js_slice :: "int \<Rightarrow> int \<Rightarrow> 'a list \<Rightarrow> 'a list" where
  "js_slice start stop xs =
     (let len = int (length xs);
          k = (if start < 0 then max (len + start) 0 else min start len);
          final = (if stop < 0 then max (len + stop) 0 else min stop len)
      in take (nat (final - k)) (drop (nat k) xs))"

text \<open>
  \<^verbatim>\<open>Math.floor(a / b)\<close> and \<^verbatim>\<open>Math.ceil(a / b)\<close> on integers; a division by zero gives an
  infinity or \<^verbatim>\<open>NaN\<close>.
\<close>

datatype jsnum = Num int | PosInfinity | NegInfinity | NaN

definition js_div_by_zero :: "int \<Rightarrow> jsnum" where
  "js_div_by_zero a = (if a = 0 then NaN else if 0 < a then PosInfinity else NegInfinity)"

definition js_floor_div :: "int \<Rightarrow> int \<Rightarrow> jsnum" where
  "js_floor_div a b = (if b = 0 then js_div_by_zero a else Num (a div b))"

definition js_ceil_div :: "int \<Rightarrow> int \<Rightarrow> jsnum" where
  "js_ceil_div a b = (if b = 0 then js_div_by_zero a else Num (- ((- a) div b)))"

fun js_plus_one :: "jsnum \<Rightarrow> jsnum" where
  "js_plus_one (Num n) = Num (n + 1)"
| "js_plus_one x = x"

text \<open>
  A chat as the client reports it (\<open>chatTimestamp = None\<close>: no timestamp) and the
  \<^verbatim>\<open>chatData\<close> object built from it. The fields that are only copied (name, unread count,
  last message) are left out.
\<close>

record chat =
  chatId :: string
  isGroup :: bool
  chatTimestamp :: "int option"

record chatData =
  cd_id :: string
  cd_isGroup :: bool
  cd_timestamp :: "int option"
  profilePicUrl :: "string option"

record pagination =
  pg_limit :: int
  pg_offset :: int
  hasMore :: bool
  nextOffset :: "int option"
  currentPage :: jsnum
  totalPages :: jsnum
  returnedCount :: nat

record chats_result =
  contacts :: "chatData list"
  groups :: "chatData list"
  totalChats :: nat
  pageInfo :: pagination

definition timestampOrZero :: "chat \<Rightarrow> int" where
  "timestampOrZero c = (case chatTimestamp c of None \<Rightarrow> 0 | Some t \<Rightarrow> t)"

text \<open>
  \<^verbatim>\<open>allChats.sort((a, b) => (b.timestamp || 0) - (a.timestamp || 0))\<close>: the sort of an
  array is stable, as \<open>sort_key\<close> is.
\<close>

definition sortChats :: "chat list \<Rightarrow> chat list" where
  "sortChats allChats = sort_key (\<lambda>c. - timestampOrZero c) allChats"

definition toChatData :: "chat \<Rightarrow> chatData" where
  "toChatData c = \<lparr>cd_id = chatId c, cd_isGroup = isGroup c, cd_timestamp = chatTimestamp c,
                    profilePicUrl = None\<rparr>"

definition chatsBatchSize :: "nat \<Rightarrow> nat" where
  "chatsBatchSize n = (if n \<le> 10 then 3 else if n \<le> 20 then 4 else 5)"

text \<open>\<^verbatim>\<open>profilePicMap.get(id) || null\<close>: a missing entry and an empty url are \<^verbatim>\<open>null\<close>.\<close>

definition fillProfilePic :: "picmap \<Rightarrow> chatData \<Rightarrow> chatData" where
  "fillProfilePic pm d =
     d\<lparr>profilePicUrl := (case map_of pm (cd_id d) of
                           Some (Some u) \<Rightarrow> if u = [] then None else Some u
                         | _ \<Rightarrow> None)\<rparr>"

definition paginatedChats :: "chat list \<Rightarrow> int \<Rightarrow> int \<Rightarrow> chat list" where
  "paginatedChats allChats limit offset = js_slice offset (offset + limit) (sortChats allChats)"

definition makePagination :: "nat \<Rightarrow> nat \<Rightarrow> int \<Rightarrow> int \<Rightarrow> pagination" where
  "makePagination totalCount returned limit offset =
     (let more = (offset + limit < int totalCount)
      in \<lparr>pg_limit = limit, pg_offset = offset, hasMore = more,
          nextOffset = (if more then Some (offset + limit) else None),
          currentPage = js_plus_one (js_floor_div offset limit),
          totalPages = js_ceil_div (int totalCount) limit,
          returnedCount = returned\<rparr>)"

text \<open>
  The operation closure of \<^verbatim>\<open>getChats\<close>; \<open>clientChats\<close> is what \<^verbatim>\<open>client.getChats()\<close>
  answers. The result is \<open>None\<close> when the enrichment loop does not return.
\<close>

definition getChatsOperation ::
  "pic_env \<Rightarrow> (string + chat list) \<Rightarrow> string \<Rightarrow> bool \<Rightarrow> int \<Rightarrow> int \<Rightarrow> manager
     \<Rightarrow> ((string + chats_result) \<times> manager) option" where
  "getChatsOperation env clientChats i includeProfilePics limit offset m =
     (case requireReady m i of
        Inl e \<Rightarrow> Some (Inl e, m)
      | Inr inst \<Rightarrow>
          (case clientChats of
             Inl e \<Rightarrow> Some (Inl e, m)
           | Inr allChats \<Rightarrow>
               (let page = paginatedChats allChats limit offset;
                    cs = map toChatData (filter (\<lambda>c. \<not> isGroup c) page);
                    gs = map toChatData (filter isGroup page);
                    allChatIds = map cd_id (cs @ gs);
                    info = makePagination (length allChats) (length page) limit offset
                in if includeProfilePics \<and> allChatIds \<noteq> []
                   then
                     (case getMultipleProfilePics env i allChatIds
                             (chatsBatchSize (length allChatIds)) m of
                        None \<Rightarrow> None
                      | Some (pm, m1) \<Rightarrow>
                          Some (Inr \<lparr>contacts = map (fillProfilePic pm) cs,
                                     groups = map (fillProfilePic pm) gs,
                                     totalChats = length allChats, pageInfo = info\<rparr>, m1))
                   else Some (Inr \<lparr>contacts = cs, groups = gs, totalChats = length allChats,
                                   pageInfo = info\<rparr>, m))))"

text \<open>
  The chats route: \<^verbatim>\<open>Math.min(parseInt(req.query.limit) || 50, 200)\<close> and
  \<^verbatim>\<open>Math.max(parseInt(req.query.offset) || 0, 0)\<close>. The argument is the result of
  \<^verbatim>\<open>parseInt\<close>, \<open>None\<close> for \<^verbatim>\<open>NaN\<close> (a missing or non-numeric parameter); \<^verbatim>\<open>NaN\<close> and 0 are
  falsy.
\<close>

definition routeLimit :: "int option \<Rightarrow> int" where
  "routeLimit parsed = min (case parsed of None \<Rightarrow> 50 | Some n \<Rightarrow> if n = 0 then 50 else n) 200"

definition routeOffset :: "int option \<Rightarrow> int" where
  "routeOffset parsed = max (case parsed of None \<Rightarrow> 0 | Some n \<Rightarrow> if n = 0 then 0 else n) 0"

subsection \<open>Steps of the manager\<close>

text \<open>
  Everything that writes to the registry or to an instance, as one step each: a client
  event, a call of \<^verbatim>\<open>attemptAutoReconnection\<close> (the reconnect route, or a timer), the
  two \<^verbatim>\<open>setTimeout\<close> callbacks, a tick of the sweep, a health check, the session recovery
  of the wrapper, \<^verbatim>\<open>destroyInstance\<close> and \<^verbatim>\<open>createInstance\<close>.
\<close>

datatype step =
    ClientEvent string client_event
  | ReconnectAttempt string init_outcome
  | RetryTimerFires string init_outcome
  | ReconnectTimerFires string init_outcome
  | SweepTick "string \<Rightarrow> init_outcome"
  | HealthCheck string bool
  | SessionRecovery string recover_env
  | DestroyInstance string "string option"
  | CreateInstance string "string option"

fun runStep :: "step \<Rightarrow> manager \<Rightarrow> manager" where
  "runStep (ClientEvent i ev) m = clientEvent i ev m"
| "runStep (ReconnectAttempt i out) m = attemptAutoReconnection out i m"
| "runStep (RetryTimerFires i out) m = retryTimerFires out i m"
| "runStep (ReconnectTimerFires i out) m = reconnectTimerFires out i m"
| "runStep (SweepTick init) m = fst (autoReconnectionSweep init m)"
| "runStep (HealthCheck i healthy) m = healthCheck healthy i m"
| "runStep (SessionRecovery i env) m = snd (attemptSessionRecovery env i m)"
| "runStep (DestroyInstance i destroyRejects) m = snd (destroyInstance destroyRejects i m)"
| "runStep (CreateInstance uuid arg) m = snd (createInstance uuid arg m)"

definition runSteps :: "step list \<Rightarrow> manager \<Rightarrow> manager" where
  "runSteps steps m = foldl (\<lambda>acc s. runStep s acc) m steps"

text \<open>
  The value of \<^verbatim>\<open>reconnectAttempts\<close> of an id (\<^verbatim>\<open>undefined\<close> counts as 0, as in
  \<^verbatim>\<open>(instance.reconnectAttempts || 0)\<close>), and the steps that can set it back for the
  instance \<open>i\<close>: the client's \<^verbatim>\<open>disconnected\<close> event, an attempt whose reinitialize
  succeeds, and the steps that replace or remove the instance object.
\<close>

definition attemptsOf :: "manager \<Rightarrow> string \<Rightarrow> nat" where
  "attemptsOf m i = (case getInstance m i of None \<Rightarrow> 0 | Some inst \<Rightarrow> attemptCount inst)"

fun resets :: "string \<Rightarrow> step \<Rightarrow> bool" where
  "resets i (ClientEvent j (EvDisconnected reason)) = (j = i)"
| "resets i (ClientEvent j ev) = False"
| "resets i (ReconnectAttempt j out) = (j = i \<and> out = InitResolves)"
| "resets i (RetryTimerFires j out) = (j = i \<and> out = InitResolves)"
| "resets i (ReconnectTimerFires j out) = (j = i \<and> out = InitResolves)"
| "resets i (SweepTick init) = (init i = InitResolves)"
| "resets i (HealthCheck j healthy) = False"
| "resets i (SessionRecovery j env) = (j = i)"
| "resets i (DestroyInstance j destroyRejects) = (j = i)"
| "resets i (CreateInstance uuid arg) = False"

subsection \<open>Example states\<close>

definition exampleInstance :: instanceData where
  "exampleInstance = \<lparr>instId = ''a'', client = 0, status = Ready, qr = None,
     isRecovered = False, hasValidAuth = True, skipQR = True, reconnecting = False,
     reconnectAttempts = None, keepAliveInterval = True\<rparr>"

definition exampleManager :: manager where
  "exampleManager = \<lparr>instances = [(''a'', exampleInstance)], profilePicCache = [],
     sessionDirs = [''a''], emitted = [], clientCalls = [], scheduled = [], nextClient = 1\<rparr>"

text \<open>
  An operation whose first execution meets a closed browser session and whose second
  execution succeeds; an environment in which the rebuilt client starts, and one in
  which it does not.
\<close>

definition flakyOperation :: "nat \<Rightarrow> manager \<Rightarrow> (string + string) \<times> manager" where
  "flakyOperation k m =
     (if k = 0 then (Inl ''Protocol error (Runtime.callFunctionOn): Session closed.'', m)
      else (Inr ''sent'', m))"

definition recoveringEnv :: recover_env where
  "recoveringEnv = \<lparr>validSession = True, initializeRejects = None\<rparr>"

definition brokenEnv :: recover_env where
  "brokenEnv = \<lparr>validSession = True, initializeRejects = Some ''Failed to launch the browser process''\<rparr>"

text \<open>
  A run of reconnection attempts on one instance, one after the other, with the outcome
  of the reinitialize of each; and the test of the sweep, by id.
\<close>

definition consecutiveAttempts :: "init_outcome list \<Rightarrow> string \<Rightarrow> manager \<Rightarrow> manager" where
  "consecutiveAttempts outs i m = foldl (\<lambda>acc out. attemptAutoReconnection out i acc) m outs"

definition eligibleId :: "manager \<Rightarrow> string \<Rightarrow> bool" where
  "eligibleId m i = (case getInstance m i of None \<Rightarrow> False | Some inst \<Rightarrow> sweepEligible inst)"

text \<open>
  The calls of \<^verbatim>\<open>attemptAutoReconnection\<close> for a list of ids, one after the other, each
  with the outcome of its own reinitialize; and the instance object an entered attempt
  leaves behind, where \<open>c\<close> is the handle of the client that \<^verbatim>\<open>reinitializeInstance\<close>
  built: above the bound only the counter, the status and the flag change; otherwise the
  client is replaced, the QR payload cleared, and the counter is 0 after a reinitialize
  that resolved and one more than before after one that did not.
\<close>

definition sweepAttempts :: "(string \<Rightarrow> init_outcome) \<Rightarrow> string list \<Rightarrow> manager \<Rightarrow> manager" where
  "sweepAttempts init ids m = foldl (\<lambda>acc i. attemptAutoReconnection (init i) i acc) m ids"

definition attempted :: "init_outcome \<Rightarrow> nat \<Rightarrow> instanceData \<Rightarrow> instanceData" where
  "attempted out c inst =
     (if maxReconnectAttempts < attemptCount inst + 1
      then inst\<lparr>status := Failed, reconnecting := False,
               reconnectAttempts := Some (attemptCount inst + 1)\<rparr>
      else if out = InitResolves
      then inst\<lparr>client := c, status := Initializing, qr := None,
               reconnecting := False, reconnectAttempts := Some 0\<rparr>
      else inst\<lparr>client := c, status := Disconnected, qr := None,
               reconnecting := False, reconnectAttempts := Some (attemptCount inst + 1)\<rparr>)"

definition disconnectedInstance :: "string \<Rightarrow> bool \<Rightarrow> bool \<Rightarrow> nat option \<Rightarrow> instanceData" where
  "disconnectedInstance i auth busy n =
     \<lparr>instId = i, client = 0, status = Disconnected, qr = None, isRecovered = False,
      hasValidAuth = auth, skipQR = auth, reconnecting = busy, reconnectAttempts = n,
      keepAliveInterval = False\<rparr>"

definition sweepManager :: manager where
  "sweepManager =
     \<lparr>instances = [(''a'', disconnectedInstance ''a'' True False (Some 0)),
                   (''b'', disconnectedInstance ''b'' False False None),
                   (''c'', disconnectedInstance ''c'' True True (Some 1))],
      profilePicCache = [], sessionDirs = [''a'', ''b'', ''c''], emitted = [], clientCalls = [],
      scheduled = [], nextClient = 3\<rparr>"

definition exhaustedManager :: manager where
  "exhaustedManager =
     \<lparr>instances = [(''a'', disconnectedInstance ''a'' True False (Some 8))],
      profilePicCache = [], sessionDirs = [''a''], emitted = [], clientCalls = [],
      scheduled = [], nextClient = 9\<rparr>"

definition nineFailures :: "init_outcome list" where
  "nineFailures =
     [InitRejects ''Protocol error'', InitTimesOut, InitTimesOut, InitRejects ''net'',
      InitTimesOut, InitTimesOut, InitRejects ''net'', InitTimesOut, InitTimesOut]"

definition retryingManager :: manager where
  "retryingManager =
     \<lparr>instances = [(''a'', disconnectedInstance ''a'' True False (Some 3))],
      profilePicCache = [], sessionDirs = [''a''], emitted = [], clientCalls = [],
      scheduled = [], nextClient = 4\<rparr>"

definition failedManager :: manager where
  "failedManager =
     \<lparr>instances = [(''a'', (disconnectedInstance ''a'' True False (Some 9))\<lparr>status := Failed\<rparr>),
                   (''b'', disconnectedInstance ''b'' True False (Some 2))],
      profilePicCache = [], sessionDirs = [''a'', ''b''], emitted = [], clientCalls = [],
      scheduled = [], nextClient = 12\<rparr>"

definition quietSteps :: "step list" where
  "quietSteps =
     [ReconnectAttempt ''a'' InitTimesOut, HealthCheck ''a'' False,
      SweepTick (\<lambda>i. InitRejects ''net''), ClientEvent ''a'' EvAuthenticated,
      RetryTimerFires ''a'' InitTimesOut]"

text \<open>
  The value \<^verbatim>\<open>getProfilePicWithCache\<close> returns and caches for an outcome of the race,
  and an environment for the examples: \<^verbatim>\<open>c1\<close> has a picture, the lookup of \<^verbatim>\<open>c2\<close> times
  out, that of \<^verbatim>\<open>c3\<close> is rejected, every other contact has no picture; the second
  batch runs into the batch timeout.
\<close>

fun lookupValue :: "lookup_outcome \<Rightarrow> string option" where
  "lookupValue (LookupResolves u) = u"
| "lookupValue (LookupRejects e) = None"
| "lookupValue LookupTimesOut = None"

definition picEnv :: pic_env where
  "picEnv = \<lparr>lookup = (\<lambda>c. if c = ''c1'' then LookupResolves (Some ''https://pps/c1.jpg'')
                          else if c = ''c2'' then LookupTimesOut
                          else if c = ''c3'' then LookupRejects ''Evaluation failed''
                          else LookupResolves None),
             settledAt = (\<lambda>c. 5000), batchStart = (\<lambda>k. 1000 * int k),
             batchTimesOut = (\<lambda>k. k = 2)\<rparr>"

definition fiveIds :: "string list" where
  "fiveIds = [''c1'', ''c2'', ''c3'', ''c4'', ''c5'']"

text \<open>
  The ready instance \<^verbatim>\<open>a\<close> with two cache entries written at time 1000: no picture for
  \<^verbatim>\<open>c9\<close>, a picture for \<^verbatim>\<open>c1\<close>.
\<close>

definition cachedManager :: manager where
  "cachedManager =
     exampleManager\<lparr>profilePicCache :=
       [(''a:c9'', \<lparr>url = None, timestamp = 1000\<rparr>),
        (''a:c1'', \<lparr>url = Some ''https://pps/old.jpg'', timestamp = 1000\<rparr>)]\<rparr>"

text \<open>Three chats as the client lists them: two contacts and a group without timestamp.\<close>

definition threeChats :: "chat list" where
  "threeChats =
     [\<lparr>chatId = ''1@c.us'', isGroup = False, chatTimestamp = Some 20\<rparr>,
      \<lparr>chatId = ''2@g.us'', isGroup = True, chatTimestamp = None\<rparr>,
      \<lparr>chatId = ''3@c.us'', isGroup = False, chatTimestamp = Some 30\<rparr>]"

section \<open>Registry: one instance per id\<close>

lemma createInstance_keys_distinct:
  "distinct (map fst (instances m)) \<Longrightarrow>
   distinct (map fst (instances (snd (createInstance uuid arg m))))"
  by (simp add: createInstance_def Let_def setInstance_def newClient_def distinct_update
      split: prod.splits)

text \<open>
  C8. For an id that is present in the registry, \<^verbatim>\<open>createInstance\<close> with that id throws
  the error "Instance <id> already exists" and returns the manager as it was: no field
  of the registered entry changes and no entry is added. Whatever the argument, the keys
  of the registry stay pairwise distinct, so there is at most one instance per id.
  (An id in the registry is never the empty string: \<^verbatim>\<open>createInstance\<close> replaces an empty
  argument by a generated id, and the other ids are directory names.)
\<close>

theorem createInstance_existing_id:
  assumes "getInstance m i \<noteq> None" and "i \<noteq> []"
  shows "createInstance uuid (Some i) m = (Inl (''Instance '' @ i @ '' already exists''), m)
       \<and> (distinct (map fst (instances m)) \<longrightarrow>
            distinct (map fst (instances (snd (createInstance uuid' arg m)))))"
  using assms createInstance_keys_distinct [of m uuid' arg]
  by (simp add: createInstance_def)

theorem createInstance_existing_id_witness:
  "getInstance exampleManager ''a'' \<noteq> None \<and> ''a'' \<noteq> []
   \<and> createInstance ''u1'' (Some ''a'') exampleManager
       = (Inl ''Instance a already exists'', exampleManager)
   \<and> distinct (map fst (instances exampleManager))
   \<and> distinct (map fst (instances (snd (createInstance ''u1'' None exampleManager))))"
proof -
  have h: "getInstance exampleManager ''a'' \<noteq> None"
    by (simp add: getInstance_def exampleManager_def)
  have d: "distinct (map fst (instances exampleManager))"
    by (simp add: exampleManager_def)
  from createInstance_existing_id [OF h, of "''u1''" "''u1''" None] d h
  show ?thesis by simp
qed


section \<open>Lemmas about the registry\<close>

lemma getInstance_setInstance:
  "getInstance (setInstance i x m) j = (if j = i then Some x else getInstance m j)"
  by (simp add: getInstance_def setInstance_def update_conv')

lemma getInstance_modifyInstance:
  "getInstance (modifyInstance i f m) j
     = (if j = i then map_option f (getInstance m i) else getInstance m j)"
  by (cases "getInstance m i") (simp_all add: modifyInstance_def getInstance_setInstance)

lemma keys_setInstance:
  "getInstance m i \<noteq> None \<Longrightarrow> map fst (instances (setInstance i x m)) = map fst (instances m)"
  by (auto simp: getInstance_def setInstance_def update_keys map_of_eq_None_iff)

lemma keys_modifyInstance:
  "map fst (instances (modifyInstance i f m)) = map fst (instances m)"
  by (cases "getInstance m i") (simp_all add: modifyInstance_def keys_setInstance)

lemma getInstance_other_fields [simp]:
  "getInstance (m\<lparr>emitted := e\<rparr>) j = getInstance m j"
  "getInstance (m\<lparr>scheduled := s\<rparr>) j = getInstance m j"
  "getInstance (m\<lparr>nextClient := n\<rparr>) j = getInstance m j"
  "getInstance (m\<lparr>clientCalls := c\<rparr>) j = getInstance m j"
  "getInstance (m\<lparr>profilePicCache := p\<rparr>) j = getInstance m j"
  "getInstance (m\<lparr>sessionDirs := d\<rparr>) j = getInstance m j"
  by (simp_all add: getInstance_def)

section \<open>The operation recovery wrapper\<close>

text \<open>
  \<open>includes_str\<close> is \<^verbatim>\<open>String.prototype.includes\<close>: the pattern occurs somewhere in the
  string.
\<close>

lemma startsWith_iff: "startsWith s p \<longleftrightarrow> (\<exists>b. s = p @ b)"
  by (induction s p rule: startsWith.induct) auto

lemma includes_str_iff: "includes_str s p \<longleftrightarrow> (\<exists>a b. s = a @ p @ b)"
proof (induction s)
  case Nil
  then show ?case by auto
next
  case (Cons c cs)
  have "(\<exists>a b. c # cs = a @ p @ b) \<longleftrightarrow> (\<exists>b. c # cs = p @ b) \<or> (\<exists>a b. cs = a @ p @ b)"
  proof
    assume "\<exists>a b. c # cs = a @ p @ b"
    then obtain a b where e: "c # cs = a @ p @ b" by blast
    show "(\<exists>b. c # cs = p @ b) \<or> (\<exists>a b. cs = a @ p @ b)"
    proof (cases a)
      case Nil
      then show ?thesis using e by auto
    next
      case (Cons x a')
      then have "cs = a' @ p @ b" using e by simp
      then show ?thesis by blast
    qed
  next
    assume "(\<exists>b. c # cs = p @ b) \<or> (\<exists>a b. cs = a @ p @ b)"
    then show "\<exists>a b. c # cs = a @ p @ b"
    proof
      assume "\<exists>b. c # cs = p @ b"
      then obtain b where "c # cs = [] @ p @ b" by auto
      then show ?thesis by blast
    next
      assume "\<exists>a b. cs = a @ p @ b"
      then obtain a b where "c # cs = (c # a) @ p @ b" by auto
      then show ?thesis by blast
    qed
  qed
  then show ?case using Cons by (simp add: startsWith_iff)
qed

text \<open>
  C1. When the first execution of the operation throws: if the message contains one of
  'Session closed', 'Protocol error', 'Target closed', the recovery runs once; if it
  succeeds the operation is executed a second and last time and the outcome of that
  execution, result or error, is what the wrapper returns; if it fails the wrapper
  throws the error "Session recovery failed for instance <id>. Please reinitialize the
  instance." in place of the original one. An error with none of the three signatures is
  rethrown as it is, with no recovery and no second execution.
\<close>

theorem executeWithRecovery_first_execution_throws:
  assumes "operation 0 m = (Inl e, m1)"
  shows "isSessionError e
           = (includes_str e ''Session closed'' \<or> includes_str e ''Protocol error''
              \<or> includes_str e ''Target closed'')
       \<and> (isSessionError e \<and> attemptSessionRecovery env i m1 = (True, m2) \<longrightarrow>
            executeWithRecovery env i operation m
              = (fst (operation 1 m2), snd (operation 1 m2), 2, 1))
       \<and> (isSessionError e \<and> attemptSessionRecovery env i m1 = (False, m2) \<longrightarrow>
            executeWithRecovery env i operation m = (Inl (recoveryFailedMessage i), m2, 1, 1))
       \<and> (\<not> isSessionError e \<longrightarrow>
            executeWithRecovery env i operation m = (Inl e, m1, 1, 0))"
  using assms by (simp add: executeWithRecovery_def isSessionError_def split: prod.splits)

lemma flakyOperation_first:
  "flakyOperation 0 exampleManager
     = (Inl ''Protocol error (Runtime.callFunctionOn): Session closed.'', exampleManager)"
  by (simp add: flakyOperation_def)

lemma session_closed_is_session_error:
  "isSessionError ''Protocol error (Runtime.callFunctionOn): Session closed.''"
  by (simp add: isSessionError_def)

lemma recovery_succeeds_example:
  "fst (attemptSessionRecovery recoveringEnv ''a'' exampleManager) = True"
  by (simp add: attemptSessionRecovery_def recoverInstance_def recoveringEnv_def
      exampleManager_def getInstance_def modifyInstance_def setInstance_def newClient_def)

lemma recovery_fails_example:
  "fst (attemptSessionRecovery brokenEnv ''a'' exampleManager) = False"
  by (simp add: attemptSessionRecovery_def recoverInstance_def brokenEnv_def
      exampleManager_def getInstance_def modifyInstance_def setInstance_def newClient_def)

lemma missing_instance_example:
  "sendMessageOperation (Inr ''id1'') ''b'' exampleManager
     = (Inl ''Instance b not found'', exampleManager)"
  by (simp add: sendMessageOperation_def requireReady_def getInstance_def exampleManager_def)

lemma not_found_is_no_session_error: "\<not> isSessionError ''Instance b not found''"
  by (simp add: isSessionError_def)

theorem executeWithRecovery_first_execution_throws_witness:
  "executeWithRecovery recoveringEnv ''a'' flakyOperation exampleManager
     = (Inr ''sent'', snd (attemptSessionRecovery recoveringEnv ''a'' exampleManager), 2, 1)
   \<and> executeWithRecovery brokenEnv ''a'' flakyOperation exampleManager
     = (Inl ''Session recovery failed for instance a. Please reinitialize the instance.'',
        snd (attemptSessionRecovery brokenEnv ''a'' exampleManager), 1, 1)
   \<and> executeWithRecovery brokenEnv ''b'' (\<lambda>k. sendMessageOperation (Inr ''id1'') ''b'')
        exampleManager
     = (Inl ''Instance b not found'', exampleManager, 1, 0)"
proof -
  have a: "attemptSessionRecovery recoveringEnv ''a'' exampleManager
             = (True, snd (attemptSessionRecovery recoveringEnv ''a'' exampleManager))"
    using recovery_succeeds_example by (simp add: prod_eq_iff)
  have b: "attemptSessionRecovery brokenEnv ''a'' exampleManager
             = (False, snd (attemptSessionRecovery brokenEnv ''a'' exampleManager))"
    using recovery_fails_example by (simp add: prod_eq_iff)
  have "executeWithRecovery recoveringEnv ''a'' flakyOperation exampleManager
     = (Inr ''sent'', snd (attemptSessionRecovery recoveringEnv ''a'' exampleManager), 2, 1)"
    using executeWithRecovery_first_execution_throws
        [of flakyOperation exampleManager
            "''Protocol error (Runtime.callFunctionOn): Session closed.''" exampleManager
            recoveringEnv "''a''"
            "snd (attemptSessionRecovery recoveringEnv ''a'' exampleManager)"]
      flakyOperation_first session_closed_is_session_error a
    by (simp add: flakyOperation_def)
  moreover have "executeWithRecovery brokenEnv ''a'' flakyOperation exampleManager
     = (Inl ''Session recovery failed for instance a. Please reinitialize the instance.'',
        snd (attemptSessionRecovery brokenEnv ''a'' exampleManager), 1, 1)"
    using executeWithRecovery_first_execution_throws
        [of flakyOperation exampleManager
            "''Protocol error (Runtime.callFunctionOn): Session closed.''" exampleManager
            brokenEnv "''a''" "snd (attemptSessionRecovery brokenEnv ''a'' exampleManager)"]
      flakyOperation_first session_closed_is_session_error b
    by (simp add: recoveryFailedMessage_def)
  moreover have "executeWithRecovery brokenEnv ''b'' (\<lambda>k. sendMessageOperation (Inr ''id1'') ''b'')
        exampleManager = (Inl ''Instance b not found'', exampleManager, 1, 0)"
    using executeWithRecovery_first_execution_throws
        [of "\<lambda>k. sendMessageOperation (Inr ''id1'') ''b''" exampleManager
            "''Instance b not found''" exampleManager brokenEnv "''b''"]
      missing_instance_example not_found_is_no_session_error
    by simp
  ultimately show ?thesis by simp
qed

lemma recoverInstance_throws_deletes:
  "recoverInstance env i m = (Inl e, m') \<Longrightarrow> getInstance m' i = None"
  by (auto simp: recoverInstance_def Let_def newClient_def getInstance_def deleteInstance_def
      setInstance_def delete_conv split: if_splits option.splits prod.splits)

text \<open>
  C10. When the first execution of an operation throws a session error for a
  registered instance and \<^verbatim>\<open>recoverInstance\<close>, called by \<^verbatim>\<open>attemptSessionRecovery\<close>,
  throws while it rebuilds the client, the wrapper throws the recovery-failed error and
  the registry holds no entry for the id any more: the status query answers "Instance not
  found" and the prologue of every operation throws "Instance <id> not found".
\<close>

theorem failed_rebuild_unregisters_instance:
  assumes "operation 0 m = (Inl e, m1)" and "isSessionError e"
    and "getInstance m1 i \<noteq> None"
    and "recoverInstance env i (modifyInstance i (\<lambda>x. x\<lparr>status := Recovering\<rparr>) m1) = (Inl err, m2)"
  shows "executeWithRecovery env i operation m = (Inl (recoveryFailedMessage i), m2, 1, 1)
       \<and> getInstance m2 i = None
       \<and> getInstanceStatus m2 i = Inl ''Instance not found''
       \<and> requireReady m2 i = Inl (''Instance '' @ i @ '' not found'')"
proof -
  have gone: "getInstance m2 i = None"
    using recoverInstance_throws_deletes [OF assms(4)] .
  have "attemptSessionRecovery env i m1 = (False, m2)"
    using assms(3,4) by (auto simp: attemptSessionRecovery_def Let_def)
  then have "executeWithRecovery env i operation m = (Inl (recoveryFailedMessage i), m2, 1, 1)"
    using assms(1,2) by (simp add: executeWithRecovery_def)
  then show ?thesis using gone
    by (simp add: getInstanceStatus_def requireReady_def)
qed

lemma rebuild_throws_example:
  "fst (recoverInstance brokenEnv ''a''
          (modifyInstance ''a'' (\<lambda>x. x\<lparr>status := Recovering\<rparr>) exampleManager))
     = Inl ''Failed to launch the browser process''"
  by (simp add: recoverInstance_def brokenEnv_def exampleManager_def getInstance_def
      modifyInstance_def setInstance_def newClient_def)

theorem failed_rebuild_unregisters_instance_witness:
  "flakyOperation 0 exampleManager
     = (Inl ''Protocol error (Runtime.callFunctionOn): Session closed.'', exampleManager)
   \<and> isSessionError ''Protocol error (Runtime.callFunctionOn): Session closed.''
   \<and> getInstance exampleManager ''a'' \<noteq> None
   \<and> fst (executeWithRecovery brokenEnv ''a'' flakyOperation exampleManager)
       = Inl ''Session recovery failed for instance a. Please reinitialize the instance.''
   \<and> getInstanceStatus (fst (snd (executeWithRecovery brokenEnv ''a'' flakyOperation exampleManager))) ''a''
       = Inl ''Instance not found''
   \<and> requireReady (fst (snd (executeWithRecovery brokenEnv ''a'' flakyOperation exampleManager))) ''a''
       = Inl ''Instance a not found''"
proof -
  let ?m1 = "modifyInstance ''a'' (\<lambda>x. x\<lparr>status := Recovering\<rparr>) exampleManager"
  have r: "recoverInstance brokenEnv ''a'' ?m1
             = (Inl ''Failed to launch the browser process'', snd (recoverInstance brokenEnv ''a'' ?m1))"
    using rebuild_throws_example by (simp add: prod_eq_iff)
  have g: "getInstance exampleManager ''a'' \<noteq> None"
    by (simp add: getInstance_def exampleManager_def)
  from failed_rebuild_unregisters_instance
         [of flakyOperation exampleManager
             "''Protocol error (Runtime.callFunctionOn): Session closed.''" exampleManager
             "''a''" brokenEnv "''Failed to launch the browser process''"
             "snd (recoverInstance brokenEnv ''a'' ?m1)",
          OF flakyOperation_first session_closed_is_session_error g r]
  show ?thesis
    using flakyOperation_first session_closed_is_session_error g
    by (simp add: recoveryFailedMessage_def)
qed


section \<open>The auto-reconnector\<close>

lemma reinitializeInstance_instance:
  "getInstance m i = Some inst \<Longrightarrow>
   getInstance (snd (reinitializeInstance init i m)) j =
     (if j = i
      then Some (if init = InitResolves
                 then inst\<lparr>client := nextClient m, status := Initializing, qr := None\<rparr>
                 else inst\<lparr>client := nextClient m, status := Disconnected, qr := None,
                          reconnecting := False\<rparr>)
      else getInstance m j)"
  by (cases init)
     (simp_all add: reinitializeInstance_def newClient_def Let_def getInstance_setInstance)

lemma reinitializeInstance_result:
  "getInstance m i = Some inst \<Longrightarrow>
   (\<exists>r. fst (reinitializeInstance init i m) = Inr r) = (init = InitResolves)"
  by (cases init) (simp_all add: reinitializeInstance_def newClient_def Let_def)

lemma reinitializeInstance_keys:
  "map fst (instances (snd (reinitializeInstance init i m))) = map fst (instances m)"
  by (cases init; cases "getInstance m i")
     (simp_all add: reinitializeInstance_def newClient_def Let_def keys_setInstance
        getInstance_setInstance)

lemma attempt_instance:
  assumes "getInstance m i = Some inst" and "\<not> reconnecting inst"
  shows "getInstance (attemptAutoReconnection init i m) j =
     (if j = i
      then Some (if maxReconnectAttempts < attemptCount inst + 1
                 then inst\<lparr>status := Failed, reconnecting := False,
                          reconnectAttempts := Some (attemptCount inst + 1)\<rparr>
                 else if init = InitResolves
                 then inst\<lparr>client := nextClient m, status := Initializing, qr := None,
                          reconnecting := False, reconnectAttempts := Some 0\<rparr>
                 else inst\<lparr>client := nextClient m, status := Disconnected, qr := None,
                          reconnecting := False,
                          reconnectAttempts := Some (attemptCount inst + 1)\<rparr>)
      else getInstance m j)"
proof -
  let ?m1 = "modifyInstance i (\<lambda>x. x\<lparr>reconnecting := True, reconnectAttempts := Some (attemptCount inst + 1)\<rparr>) m"
  have g1: "getInstance ?m1 i = Some (inst\<lparr>reconnecting := True, reconnectAttempts := Some (attemptCount inst + 1)\<rparr>)"
    using assms by (simp add: getInstance_modifyInstance)
  have n1: "nextClient ?m1 = nextClient m"
    using assms by (simp add: modifyInstance_def setInstance_def)
  show ?thesis
  proof (cases "maxReconnectAttempts < attemptCount inst + 1")
    case True
    then show ?thesis using assms
      by (simp add: attemptAutoReconnection_def Let_def getInstance_modifyInstance)
  next
    case False
    obtain out m2 where r: "reinitializeInstance init i ?m1 = (out, m2)"
      by (cases "reinitializeInstance init i ?m1")
    have g2: "getInstance m2 j = (if j = i
      then Some (if init = InitResolves
                 then inst\<lparr>reconnecting := True, reconnectAttempts := Some (attemptCount inst + 1), client := nextClient m, status := Initializing, qr := None\<rparr>
                 else inst\<lparr>reconnecting := True, reconnectAttempts := Some (attemptCount inst + 1), client := nextClient m, status := Disconnected, qr := None,
                          reconnecting := False\<rparr>)
      else getInstance m j)" for j
      using reinitializeInstance_instance [OF g1, of init j] r n1
      by (simp add: getInstance_modifyInstance)
    have o: "(\<exists>r. out = Inr r) = (init = InitResolves)"
      using reinitializeInstance_result [OF g1, of init] r by simp
    show ?thesis
    proof (cases out)
      case (Inl e)
      then show ?thesis using False assms r o g2
        by (simp add: attemptAutoReconnection_def Let_def getInstance_modifyInstance)
    next
      case (Inr x)
      then show ?thesis using False assms r o g2
        by (simp add: attemptAutoReconnection_def Let_def getInstance_modifyInstance)
    qed
  qed
qed

lemma attempt_skipped:
  "getInstance m i = None \<or> (\<exists>inst. getInstance m i = Some inst \<and> reconnecting inst) \<Longrightarrow>
   attemptAutoReconnection init i m = m"
  by (auto simp: attemptAutoReconnection_def)

lemma attempt_other:
  "j \<noteq> i \<Longrightarrow> getInstance (attemptAutoReconnection init i m) j = getInstance m j"
proof (cases "getInstance m i")
  case None
  then show ?thesis by (simp add: attempt_skipped)
next
  case (Some inst)
  assume "j \<noteq> i"
  then show ?thesis
    using Some attempt_instance [OF Some, of init j] attempt_skipped [of m i init]
    by (cases "reconnecting inst") auto
qed

lemma attempt_keys:
  "map fst (instances (attemptAutoReconnection init i m)) = map fst (instances m)"
proof (cases "getInstance m i")
  case None
  then show ?thesis by (simp add: attempt_skipped)
next
  case (Some inst)
  show ?thesis
  proof (cases "reconnecting inst")
    case True
    then show ?thesis using Some by (simp add: attempt_skipped)
  next
    case False
    let ?m1 = "modifyInstance i (\<lambda>x. x\<lparr>reconnecting := True, reconnectAttempts := Some (attemptCount inst + 1)\<rparr>) m"
    obtain out m2 where r: "reinitializeInstance init i ?m1 = (out, m2)"
      by (cases "reinitializeInstance init i ?m1")
    have k2: "map fst (instances m2) = map fst (instances m)"
      using reinitializeInstance_keys [of init i ?m1] r by (simp add: keys_modifyInstance)
    show ?thesis using Some False r k2
      by (cases out)
         (simp_all add: attemptAutoReconnection_def Let_def keys_modifyInstance)
  qed
qed

lemma modifyInstance_Some:
  "getInstance m i = Some inst \<Longrightarrow> modifyInstance i f m = setInstance i (f inst) m"
  by (simp add: modifyInstance_def)

lemma setInstance_twice:
  "setInstance i y (setInstance i x m) = setInstance i y m"
  by (simp add: setInstance_def)

lemma attempt_exceeds:
  assumes "getInstance m i = Some inst" and "\<not> reconnecting inst"
    and "maxReconnectAttempts < attemptCount inst + 1"
  shows "attemptAutoReconnection init i m =
     (setInstance i (inst\<lparr>reconnectAttempts := Some (attemptCount inst + 1),
                          status := Failed, reconnecting := False\<rparr>) m)
       \<lparr>emitted := emitted m @ [InstanceStatusChanged i Failed]\<rparr>"
proof -
  let ?x = "inst\<lparr>reconnecting := True, reconnectAttempts := Some (attemptCount inst + 1)\<rparr>"
  have m1: "modifyInstance i (\<lambda>x. x\<lparr>reconnecting := True, reconnectAttempts := Some (attemptCount inst + 1)\<rparr>) m
              = setInstance i ?x m"
    using assms(1) by (rule modifyInstance_Some)
  have g: "getInstance (setInstance i ?x m) i = Some ?x"
    by (simp add: getInstance_setInstance)
  have m2: "modifyInstance i (\<lambda>x. x\<lparr>status := Failed, reconnecting := False\<rparr>) (setInstance i ?x m)
              = setInstance i (?x\<lparr>status := Failed, reconnecting := False\<rparr>) m"
    using modifyInstance_Some [OF g] by (simp add: setInstance_twice)
  have e: "emitted (setInstance i ?x m) = emitted m"
    by (simp add: setInstance_def)
  show ?thesis
    using assms m1 m2 e by (simp add: attemptAutoReconnection_def Let_def)
qed

lemma failed_run:
  assumes "\<forall>out \<in> set outs. out \<noteq> InitResolves" and "outs \<noteq> []"
    and "getInstance m i = Some inst" and "\<not> reconnecting inst"
  shows "\<exists>inst'. getInstance (consecutiveAttempts outs i m) i = Some inst' \<and> \<not> reconnecting inst'
           \<and> attemptCount inst' = attemptCount inst + length outs
           \<and> status inst' = (if maxReconnectAttempts < attemptCount inst + length outs
                              then Failed else Disconnected)"
  using assms
proof (induction outs rule: rev_induct)
  case Nil
  then show ?case by simp
next
  case (snoc out outs)
  show ?case
  proof (cases "outs = []")
    case True
    then show ?thesis
      using snoc.prems attempt_instance [OF snoc.prems(3,4), of out i]
      by (auto simp: consecutiveAttempts_def attemptCount_def)
  next
    case False
    then obtain x where x: "getInstance (consecutiveAttempts outs i m) i = Some x" "\<not> reconnecting x"
        "attemptCount x = attemptCount inst + length outs"
        "status x = (if maxReconnectAttempts < attemptCount inst + length outs
                              then Failed else Disconnected)"
      using snoc by auto
    have step: "consecutiveAttempts (outs @ [out]) i m
                  = attemptAutoReconnection out i (consecutiveAttempts outs i m)"
      by (simp add: consecutiveAttempts_def)
    show ?thesis
      using snoc.prems(1) x attempt_instance [OF x(1,2), of out i]
      by (auto simp: step attemptCount_def)
  qed
qed



text \<open>
  C2. An attempt that is entered (the instance is registered and no attempt is running on
  it) first adds one to \<^verbatim>\<open>reconnectAttempts\<close>. If the new value is above
  \<^verbatim>\<open>maxReconnectAttempts\<close>, which is 8, the attempt sets the status to failed, clears
  \<^verbatim>\<open>reconnecting\<close>, emits the status-changed notification and changes nothing else: no
  client is built, whatever the reinitialize would have answered. Hence nine attempts in
  a row whose reinitialize fails when it is reached, started at \<^verbatim>\<open>reconnectAttempts = 0\<close>,
  leave the instance with status failed.
\<close>

theorem attemptAutoReconnection_gives_up_after_max:
  assumes "getInstance m i = Some inst" and "\<not> reconnecting inst"
  shows "maxReconnectAttempts = 8
       \<and> (init \<noteq> InitResolves \<longrightarrow>
            map_option attemptCount (getInstance (attemptAutoReconnection init i m) i)
              = Some (attemptCount inst + 1))
       \<and> (maxReconnectAttempts < attemptCount inst + 1 \<longrightarrow>
            attemptAutoReconnection init i m =
              (setInstance i (inst\<lparr>reconnectAttempts := Some (attemptCount inst + 1),
                                   status := Failed, reconnecting := False\<rparr>) m)
                \<lparr>emitted := emitted m @ [InstanceStatusChanged i Failed]\<rparr>)
       \<and> (attemptCount inst = 0 \<and> length outs = 9 \<and> (\<forall>out \<in> set outs. out \<noteq> InitResolves) \<longrightarrow>
            map_option status (getInstance (consecutiveAttempts outs i m) i) = Some Failed)"
proof -
  have run: "map_option status (getInstance (consecutiveAttempts outs i m) i) = Some Failed"
    if "attemptCount inst = 0" "length outs = 9" "\<forall>out \<in> set outs. out \<noteq> InitResolves"
  proof -
    have "outs \<noteq> []" using that(2) by auto
    from failed_run [OF that(3) this assms] that(1,2)
    show ?thesis by (auto simp: maxReconnectAttempts_def)
  qed
  have inc: "map_option attemptCount (getInstance (attemptAutoReconnection init i m) i)
              = Some (attemptCount inst + 1)" if "init \<noteq> InitResolves"
    using that attempt_instance [OF assms, of init i] by (simp add: attemptCount_def)
  show ?thesis
    using attempt_exceeds [OF assms, of init] run inc
    by (simp add: maxReconnectAttempts_def)
qed

theorem attemptAutoReconnection_gives_up_after_max_witness:
  "getInstance exhaustedManager ''a'' = Some (disconnectedInstance ''a'' True False (Some 8))
   \<and> getInstance sweepManager ''a'' = Some (disconnectedInstance ''a'' True False (Some 0))
   \<and> \<not> reconnecting (disconnectedInstance ''a'' True False (Some 8))
   \<and> attemptAutoReconnection InitResolves ''a'' exhaustedManager =
        exhaustedManager
          \<lparr>instances := [(''a'', (disconnectedInstance ''a'' True False (Some 9))\<lparr>status := Failed\<rparr>)],
           emitted := [InstanceStatusChanged ''a'' Failed]\<rparr>
   \<and> map_option attemptCount
         (getInstance (attemptAutoReconnection InitTimesOut ''a'' sweepManager) ''a'') = Some 1
   \<and> length nineFailures = 9
   \<and> map_option status (getInstance (consecutiveAttempts nineFailures ''a'' sweepManager) ''a'')
        = Some Failed"
proof -
  have g8: "getInstance exhaustedManager ''a'' = Some (disconnectedInstance ''a'' True False (Some 8))"
    by (simp add: getInstance_def exhaustedManager_def)
  have g0: "getInstance sweepManager ''a'' = Some (disconnectedInstance ''a'' True False (Some 0))"
    by (simp add: getInstance_def sweepManager_def)
  have n: "\<not> reconnecting (disconnectedInstance ''a'' True False k)" for k
    by (simp add: disconnectedInstance_def)
  have nine: "length nineFailures = 9 \<and> (\<forall>out \<in> set nineFailures. out \<noteq> InitResolves)"
    by (simp add: nineFailures_def)
  have c8: "attemptCount (disconnectedInstance ''a'' True False (Some 8)) = 8"
    and c0: "attemptCount (disconnectedInstance ''a'' True False (Some 0)) = 0"
    by (simp_all add: attemptCount_def disconnectedInstance_def)
  from attemptAutoReconnection_gives_up_after_max [OF g8 n, of InitResolves "[]"] c8
  have a: "attemptAutoReconnection InitResolves ''a'' exhaustedManager =
        exhaustedManager
          \<lparr>instances := [(''a'', (disconnectedInstance ''a'' True False (Some 9))\<lparr>status := Failed\<rparr>)],
           emitted := [InstanceStatusChanged ''a'' Failed]\<rparr>"
    by (simp add: maxReconnectAttempts_def setInstance_def exhaustedManager_def
        disconnectedInstance_def)
  from attemptAutoReconnection_gives_up_after_max [OF g0 n, of InitResolves nineFailures] c0 nine
  have b: "map_option status (getInstance (consecutiveAttempts nineFailures ''a'' sweepManager) ''a'')
        = Some Failed"
    by (simp add: maxReconnectAttempts_def)
  from attemptAutoReconnection_gives_up_after_max [OF g0 n, of InitTimesOut "[]"] c0
  have c: "map_option attemptCount
         (getInstance (attemptAutoReconnection InitTimesOut ''a'' sweepManager) ''a'') = Some 1"
    by (simp add: maxReconnectAttempts_def)
  show ?thesis using g8 g0 n a b c nine by simp
qed

lemma sweepLoop_run:
  "distinct ids \<Longrightarrow>
   sweepLoop init ids m called
     = (sweepAttempts init (filter (eligibleId m) ids) m, called @ filter (eligibleId m) ids)"
proof (induction ids arbitrary: m called)
  case Nil
  then show ?case by (simp add: sweepAttempts_def)
next
  case (Cons i ids)
  have same: "eligibleId (attemptAutoReconnection out i m) j = eligibleId m j"
    if "j \<in> set ids" for out j
  proof -
    have "j \<noteq> i" using that Cons.prems by auto
    then show ?thesis by (simp add: eligibleId_def attempt_other)
  qed
  have rest: "filter (eligibleId (attemptAutoReconnection out i m)) ids = filter (eligibleId m) ids" for out
    by (rule filter_cong) (simp_all add: same)
  show ?case
  proof (cases "getInstance m i")
    case None
    then have "\<not> eligibleId m i" by (simp add: eligibleId_def)
    then show ?thesis using None Cons by simp
  next
    case (Some inst)
    then have "eligibleId m i = sweepEligible inst" by (simp add: eligibleId_def)
    then show ?thesis using Some Cons rest by (simp add: sweepAttempts_def)
  qed
qed

lemma eligible_keys:
  "distinct (map fst al) \<Longrightarrow>
   filter (\<lambda>i. case map_of al i of None \<Rightarrow> False | Some x \<Rightarrow> P x) (map fst al)
     = map fst (filter (\<lambda>(i, x). P x) al)"
  by (auto simp: filter_map comp_def intro!: arg_cong [where f = "map fst"] filter_cong)

lemma sweep_run:
  assumes "distinct (map fst (instances m))"
  shows "autoReconnectionSweep init m
           = (sweepAttempts init (map fst (filter (\<lambda>(i, inst). sweepEligible inst) (instances m))) m,
              map fst (filter (\<lambda>(i, inst). sweepEligible inst) (instances m)))"
  using sweepLoop_run [OF assms, of init m "[]"] eligible_keys [OF assms, of sweepEligible]
  by (simp add: autoReconnectionSweep_def eligibleId_def [abs_def] getInstance_def)

lemma sweepAttempts_other:
  "i \<notin> set ids \<Longrightarrow> getInstance (sweepAttempts init ids m) i = getInstance m i"
proof (induction ids arbitrary: m)
  case Nil
  then show ?case by (simp add: sweepAttempts_def)
next
  case (Cons j ids)
  have "getInstance (sweepAttempts init ids (attemptAutoReconnection (init j) j m)) i
          = getInstance (attemptAutoReconnection (init j) j m) i"
    using Cons by simp
  then show ?case using Cons.prems by (simp add: sweepAttempts_def attempt_other)
qed

lemma sweepAttempts_instance:
  "distinct ids \<Longrightarrow> i \<in> set ids \<Longrightarrow> getInstance m i = Some inst \<Longrightarrow> \<not> reconnecting inst \<Longrightarrow>
   \<exists>c. getInstance (sweepAttempts init ids m) i = Some (attempted (init i) c inst)"
proof (induction ids arbitrary: m)
  case Nil
  then show ?case by simp
next
  case (Cons j ids)
  have step: "sweepAttempts init (k # ids) m
                = sweepAttempts init ids (attemptAutoReconnection (init k) k m)" for k
    by (simp add: sweepAttempts_def)
  show ?case
  proof (cases "j = i")
    case True
    have "i \<notin> set ids" using Cons.prems(1) True by simp
    then have "getInstance (sweepAttempts init ids (attemptAutoReconnection (init j) j m)) i
                 = getInstance (attemptAutoReconnection (init j) j m) i"
      by (rule sweepAttempts_other)
    then have "getInstance (sweepAttempts init (j # ids) m) i
                 = getInstance (attemptAutoReconnection (init i) i m) i"
      using True by (simp add: step)
    also have "\<dots> = Some (attempted (init i) (nextClient m) inst)"
      using attempt_instance [OF Cons.prems(3,4), of "init i" i]
      by (simp add: attempted_def)
    finally show ?thesis by blast
  next
    case False
    then have "i \<in> set ids" "distinct ids"
      and "getInstance (attemptAutoReconnection (init j) j m) i = Some inst"
      using Cons.prems by (simp_all add: attempt_other)
    then show ?thesis using Cons.IH Cons.prems(4) by (simp add: step)
  qed
qed

lemma sweepLoop_not_eligible:
  "getInstance m i = Some inst \<Longrightarrow> \<not> sweepEligible inst \<Longrightarrow>
   getInstance (fst (sweepLoop init ids m called)) i = Some inst"
proof (induction ids arbitrary: m called)
  case Nil
  then show ?case by simp
next
  case (Cons j ids)
  show ?case
  proof (cases "j = i")
    case True
    then show ?thesis using Cons by simp
  next
    case False
    then have "getInstance (attemptAutoReconnection (init j) j m) i = Some inst"
      using Cons.prems by (simp add: attempt_other)
    then show ?thesis using Cons by (simp split: option.splits)
  qed
qed

text \<open>
  C3. One tick of the sweep calls \<^verbatim>\<open>attemptAutoReconnection\<close> for exactly the registered
  instances that are disconnected, have \<^verbatim>\<open>hasValidAuth\<close> and are not reconnecting, in the
  order of the registry: the list of the calls is the list of those ids, and the manager
  after the tick is the manager after those calls, made one after the other. Every such
  instance is left as an entered attempt leaves it (counter incremented, and either
  failed above the bound or with a new client, status initializing and counter 0 after a
  reinitialize that resolved, status disconnected after one that did not); every other
  registered instance is left as it was. So an instance without \<^verbatim>\<open>hasValidAuth\<close> is never
  called by the sweep; and an attempt on an instance whose \<^verbatim>\<open>reconnecting\<close> flag is set
  returns at once and leaves the manager as it was.
\<close>

theorem sweep_calls_exactly_the_eligible:
  assumes "distinct (map fst (instances m))"
  shows "snd (autoReconnectionSweep init m)
           = map fst (filter (\<lambda>(i, inst). status inst = Disconnected \<and> hasValidAuth inst
                                  \<and> \<not> reconnecting inst) (instances m))
       \<and> fst (autoReconnectionSweep init m)
           = foldl (\<lambda>acc i. attemptAutoReconnection (init i) i acc) m
               (map fst (filter (\<lambda>(i, inst). status inst = Disconnected \<and> hasValidAuth inst
                                  \<and> \<not> reconnecting inst) (instances m)))
       \<and> (\<forall>i inst. getInstance m i = Some inst \<and> status inst = Disconnected \<and> hasValidAuth inst
                    \<and> \<not> reconnecting inst \<longrightarrow>
             (\<exists>c. getInstance (fst (autoReconnectionSweep init m)) i
                     = Some (attempted (init i) c inst)))
       \<and> (\<forall>i inst. getInstance m i = Some inst
                    \<and> \<not> (status inst = Disconnected \<and> hasValidAuth inst \<and> \<not> reconnecting inst) \<longrightarrow>
             getInstance (fst (autoReconnectionSweep init m)) i = Some inst)
       \<and> (\<forall>i inst. getInstance m i = Some inst \<and> \<not> hasValidAuth inst \<longrightarrow>
             i \<notin> set (snd (autoReconnectionSweep init m)))
       \<and> (\<forall>i inst out. getInstance m i = Some inst \<and> reconnecting inst \<longrightarrow>
             attemptAutoReconnection out i m = m)"
proof -
  let ?el = "map fst (filter (\<lambda>(i, inst). sweepEligible inst) (instances m))"
  have run: "autoReconnectionSweep init m = (sweepAttempts init ?el m, ?el)"
    using assms by (rule sweep_run)
  have c: "snd (autoReconnectionSweep init m) = ?el"
    and s: "fst (autoReconnectionSweep init m) = sweepAttempts init ?el m"
    using run by simp_all
  have del: "distinct ?el"
    using assms by (simp add: distinct_map_filter)
  have mem: "i \<in> set ?el \<longleftrightarrow> sweepEligible inst" if "getInstance m i = Some inst" for i inst
  proof
    assume "i \<in> set ?el"
    then obtain x where "(i, x) \<in> set (instances m)" "sweepEligible x" by auto
    then have "getInstance m i = Some x" using assms by (simp add: getInstance_def)
    then show "sweepEligible inst" using that \<open>sweepEligible x\<close> by simp
  next
    assume e: "sweepEligible inst"
    have "(i, inst) \<in> set (instances m)"
      using that by (simp add: getInstance_def map_of_SomeD)
    then show "i \<in> set ?el" using e by force
  qed
  have 3: "\<exists>c. getInstance (fst (autoReconnectionSweep init m)) i = Some (attempted (init i) c inst)"
    if "getInstance m i = Some inst" "sweepEligible inst" for i inst
  proof -
    have "i \<in> set ?el" using mem [OF that(1)] that(2) by simp
    moreover have "\<not> reconnecting inst" using that(2) by (simp add: sweepEligible_def)
    ultimately show ?thesis
      using sweepAttempts_instance [OF del _ that(1), of init] s by simp
  qed
  have 4: "getInstance (fst (autoReconnectionSweep init m)) i = Some inst"
    if "getInstance m i = Some inst" "\<not> sweepEligible inst" for i inst
    using that sweepLoop_not_eligible [of m i inst init "map fst (instances m)" "[]"]
    by (simp add: autoReconnectionSweep_def)
  have 5: "i \<notin> set (snd (autoReconnectionSweep init m))"
    if "getInstance m i = Some inst" "\<not> hasValidAuth inst" for i inst
    using mem [OF that(1)] that(2) c by (simp add: sweepEligible_def)
  have 6: "attemptAutoReconnection out i m = m"
    if "getInstance m i = Some inst" "reconnecting inst" for i inst out
    using that by (simp add: attempt_skipped)
  have el: "?el = map fst (filter (\<lambda>(i, inst). status inst = Disconnected \<and> hasValidAuth inst
                                  \<and> \<not> reconnecting inst) (instances m))"
    by (simp add: sweepEligible_def)
  have c': "snd (autoReconnectionSweep init m)
           = map fst (filter (\<lambda>(i, inst). status inst = Disconnected \<and> hasValidAuth inst
                                  \<and> \<not> reconnecting inst) (instances m))"
    using c el by simp
  have s': "fst (autoReconnectionSweep init m)
           = foldl (\<lambda>acc i. attemptAutoReconnection (init i) i acc) m
               (map fst (filter (\<lambda>(i, inst). status inst = Disconnected \<and> hasValidAuth inst
                                  \<and> \<not> reconnecting inst) (instances m)))"
    using s el by (simp add: sweepAttempts_def)
  have t3: "\<forall>i inst. getInstance m i = Some inst \<and> status inst = Disconnected \<and> hasValidAuth inst
                    \<and> \<not> reconnecting inst \<longrightarrow>
             (\<exists>c. getInstance (fst (autoReconnectionSweep init m)) i
                     = Some (attempted (init i) c inst))"
    using 3 by (simp add: sweepEligible_def)
  have t4: "\<forall>i inst. getInstance m i = Some inst
                    \<and> \<not> (status inst = Disconnected \<and> hasValidAuth inst \<and> \<not> reconnecting inst) \<longrightarrow>
             getInstance (fst (autoReconnectionSweep init m)) i = Some inst"
    using 4 by (simp add: sweepEligible_def)
  have t5: "\<forall>i inst. getInstance m i = Some inst \<and> \<not> hasValidAuth inst \<longrightarrow>
             i \<notin> set (snd (autoReconnectionSweep init m))"
    using 5 by blast
  have t6: "\<forall>i inst out. getInstance m i = Some inst \<and> reconnecting inst \<longrightarrow>
             attemptAutoReconnection out i m = m"
    using 6 by blast
  from c' s' t3 t4 t5 t6 show ?thesis by (intro conjI)
qed

theorem sweep_calls_exactly_the_eligible_witness:
  "distinct (map fst (instances sweepManager))
   \<and> snd (autoReconnectionSweep (\<lambda>i. InitTimesOut) sweepManager) = [''a'']
   \<and> fst (autoReconnectionSweep (\<lambda>i. InitTimesOut) sweepManager)
       = attemptAutoReconnection InitTimesOut ''a'' sweepManager
   \<and> map_option attemptCount
         (getInstance (fst (autoReconnectionSweep (\<lambda>i. InitTimesOut) sweepManager)) ''a'') = Some 1
   \<and> map_option status
         (getInstance (fst (autoReconnectionSweep (\<lambda>i. InitTimesOut) sweepManager)) ''a'')
       = Some Disconnected
   \<and> getInstance (fst (autoReconnectionSweep (\<lambda>i. InitTimesOut) sweepManager)) ''b''
       = Some (disconnectedInstance ''b'' False False None)
   \<and> getInstance (fst (autoReconnectionSweep (\<lambda>i. InitTimesOut) sweepManager)) ''c''
       = Some (disconnectedInstance ''c'' True True (Some 1))
   \<and> ''b'' \<notin> set (snd (autoReconnectionSweep (\<lambda>i. InitTimesOut) sweepManager))
   \<and> attemptAutoReconnection InitResolves ''c'' sweepManager = sweepManager"
proof -
  let ?sweep = "autoReconnectionSweep (\<lambda>i. InitTimesOut) sweepManager"
  have d: "distinct (map fst (instances sweepManager))"
    by (simp add: sweepManager_def)
  have a: "getInstance sweepManager ''a'' = Some (disconnectedInstance ''a'' True False (Some 0))"
    and a': "status (disconnectedInstance ''a'' True False (Some 0)) = Disconnected
             \<and> hasValidAuth (disconnectedInstance ''a'' True False (Some 0))
             \<and> \<not> reconnecting (disconnectedInstance ''a'' True False (Some 0))"
    by (simp_all add: getInstance_def sweepManager_def disconnectedInstance_def)
  have b: "getInstance sweepManager ''b'' = Some (disconnectedInstance ''b'' False False None)"
    and b': "\<not> hasValidAuth (disconnectedInstance ''b'' False False None)"
    by (simp_all add: getInstance_def sweepManager_def disconnectedInstance_def)
  have c: "getInstance sweepManager ''c'' = Some (disconnectedInstance ''c'' True True (Some 1))"
    and c': "reconnecting (disconnectedInstance ''c'' True True (Some 1))"
    by (simp_all add: getInstance_def sweepManager_def disconnectedInstance_def)
  note t = sweep_calls_exactly_the_eligible [OF d, of "\<lambda>i. InitTimesOut"]
  have 1: "snd ?sweep = [''a'']"
    using t by (simp add: sweepManager_def disconnectedInstance_def)
  have 2: "fst ?sweep = attemptAutoReconnection InitTimesOut ''a'' sweepManager"
    using t by (simp add: sweepManager_def disconnectedInstance_def)
  from t a a' obtain k where
    k: "getInstance (fst ?sweep) ''a''
          = Some (attempted InitTimesOut k (disconnectedInstance ''a'' True False (Some 0)))"
    by blast
  have 3: "map_option attemptCount (getInstance (fst ?sweep) ''a'') = Some 1"
    and 4: "map_option status (getInstance (fst ?sweep) ''a'') = Some Disconnected"
    using k
    by (simp_all add: attempted_def attemptCount_def disconnectedInstance_def
        maxReconnectAttempts_def)
  have 5: "getInstance (fst ?sweep) ''b'' = Some (disconnectedInstance ''b'' False False None)"
    using t b b' by blast
  have 6: "getInstance (fst ?sweep) ''c'' = Some (disconnectedInstance ''c'' True True (Some 1))"
    using t c c' by blast
  have 7: "''b'' \<notin> set (snd ?sweep)"
    using t b b' by blast
  have 8: "attemptAutoReconnection InitResolves ''c'' sweepManager = sweepManager"
    using t c c' by blast
  show ?thesis using d 1 2 3 4 5 6 7 8 by simp
qed

section \<open>The reconnection counter\<close>

lemma getInstance_deleteInstance:
  "getInstance (deleteInstance j m) i = (if i = j then None else getInstance m i)"
  by (simp add: getInstance_def deleteInstance_def delete_conv')

lemma attemptsOf_cong:
  "getInstance m' i = getInstance m i \<Longrightarrow> attemptsOf m' i = attemptsOf m i"
  by (simp add: attemptsOf_def)

lemma handlers_keep_attempts:
  "\<forall>reason. ev \<noteq> EvDisconnected reason \<Longrightarrow>
   reconnectAttempts (secondHandler ev (firstHandler ev x)) = reconnectAttempts x"
  by (cases ev) (auto simp: Let_def split: option.splits)

lemma clientEvent_attempts:
  assumes "\<not> resets i (ClientEvent j ev)"
  shows "attemptsOf (clientEvent j ev m) i = attemptsOf m i"
proof (cases "j = i")
  case False
  then show ?thesis
    by (simp add: attemptsOf_def clientEvent_def getInstance_modifyInstance)
next
  case True
  have "\<forall>reason. ev \<noteq> EvDisconnected reason"
    using assms True by (cases ev) auto
  then show ?thesis using True
    by (cases "getInstance m i")
       (simp_all add: attemptsOf_def clientEvent_def getInstance_modifyInstance attemptCount_def
          handlers_keep_attempts)
qed

lemma attempt_attempts:
  assumes "j \<noteq> i \<or> out \<noteq> InitResolves"
  shows "attemptsOf m i \<le> attemptsOf (attemptAutoReconnection out j m) i"
proof (cases "j = i")
  case False
  then show ?thesis by (simp add: attemptsOf_def attempt_other)
next
  case True
  show ?thesis
  proof (cases "getInstance m i")
    case None
    then show ?thesis using True by (simp add: attempt_skipped)
  next
    case (Some inst)
    show ?thesis
    proof (cases "reconnecting inst")
      case True
      then show ?thesis using Some \<open>j = i\<close> by (simp add: attempt_skipped)
    next
      case False
      then show ?thesis
        using assms \<open>j = i\<close> Some attempt_instance [OF Some False, of out i]
        by (simp add: attemptsOf_def attemptCount_def)
    qed
  qed
qed

lemma retryTimer_attempts:
  assumes "j \<noteq> i \<or> out \<noteq> InitResolves"
  shows "attemptsOf m i \<le> attemptsOf (retryTimerFires out j m) i"
proof -
  let ?m1 = "m\<lparr>scheduled := remove1 (RetryTimer j) (scheduled m)\<rparr>"
  have a: "attemptsOf ?m1 i = attemptsOf m i" by (simp add: attemptsOf_def)
  have "attemptsOf ?m1 i \<le> attemptsOf (retryTimerFires out j m) i"
    using attempt_attempts [OF assms, of ?m1]
    by (simp add: retryTimerFires_def Let_def split: option.splits)
  then show ?thesis using a by simp
qed

lemma reconnectTimer_attempts:
  assumes "j \<noteq> i \<or> out \<noteq> InitResolves"
  shows "attemptsOf m i \<le> attemptsOf (reconnectTimerFires out j m) i"
proof -
  let ?m1 = "m\<lparr>scheduled := remove1 (ReconnectTimer j) (scheduled m)\<rparr>"
  have a: "attemptsOf ?m1 i = attemptsOf m i" by (simp add: attemptsOf_def)
  show ?thesis
    using attempt_attempts [OF assms, of ?m1] a by (simp add: reconnectTimerFires_def)
qed

lemma sweepLoop_attempts:
  "init i \<noteq> InitResolves \<Longrightarrow> attemptsOf m i \<le> attemptsOf (fst (sweepLoop init ids m called)) i"
proof (induction ids arbitrary: m called)
  case Nil
  then show ?case by simp
next
  case (Cons j ids)
  have step: "attemptsOf m i \<le> attemptsOf (attemptAutoReconnection (init j) j m) i"
    using Cons.prems by (intro attempt_attempts) auto
  show ?case
  proof (cases "getInstance m j")
    case None
    then show ?thesis using Cons by simp
  next
    case (Some inst)
    show ?thesis
    proof (cases "sweepEligible inst")
      case True
      have "attemptsOf (attemptAutoReconnection (init j) j m) i
              \<le> attemptsOf (fst (sweepLoop init ids (attemptAutoReconnection (init j) j m) (called @ [j]))) i"
        using Cons by blast
      then show ?thesis using Some True step by simp
    next
      case False
      then show ?thesis using Some Cons by simp
    qed
  qed
qed

lemma healthCheck_attempts:
  "attemptsOf (healthCheck healthy j m) i = attemptsOf m i"
  by (cases "getInstance m j"; cases "j = i")
     (simp_all add: healthCheck_def attemptsOf_def getInstance_modifyInstance attemptCount_def)

lemma recoverInstance_other:
  "j \<noteq> i \<Longrightarrow> getInstance (snd (recoverInstance env j m)) i = getInstance m i"
  by (simp add: recoverInstance_def Let_def newClient_def getInstance_setInstance
      getInstance_deleteInstance split: option.splits)

lemma sessionRecovery_other:
  "j \<noteq> i \<Longrightarrow> getInstance (snd (attemptSessionRecovery env j m)) i = getInstance m i"
proof (cases "getInstance m j")
  case None
  then show ?thesis by (simp add: attemptSessionRecovery_def)
next
  case (Some inst)
  assume ji: "j \<noteq> i"
  let ?m1 = "modifyInstance j (\<lambda>x. x\<lparr>status := Recovering\<rparr>) m"
  have "getInstance (snd (recoverInstance env j ?m1)) i = getInstance m i"
    using ji by (simp add: recoverInstance_other getInstance_modifyInstance)
  then show ?thesis using Some
    by (cases "recoverInstance env j ?m1"; cases "fst (recoverInstance env j ?m1)")
       (simp_all add: attemptSessionRecovery_def Let_def)
qed

lemma destroyInstance_other:
  "j \<noteq> i \<Longrightarrow> getInstance (snd (destroyInstance d j m)) i = getInstance m i"
  by (simp add: destroyInstance_def Let_def getInstance_deleteInstance split: option.splits)

lemma createInstance_attempts:
  "attemptsOf m i \<le> attemptsOf (snd (createInstance uuid arg m)) i"
  by (auto simp: createInstance_def Let_def newClient_def attemptsOf_def getInstance_setInstance
      split: option.splits)

lemma step_attempts:
  "\<not> resets i s \<Longrightarrow> attemptsOf m i \<le> attemptsOf (runStep s m) i"
proof (cases s)
  case (ClientEvent j ev)
  assume "\<not> resets i s"
  then show ?thesis using ClientEvent clientEvent_attempts [of i j ev m] by simp
next
  case (SweepTick init)
  assume "\<not> resets i s"
  then show ?thesis using SweepTick sweepLoop_attempts [of init i m]
    by (simp add: autoReconnectionSweep_def)
next
  case (ReconnectAttempt j out)
  assume "\<not> resets i s"
  then show ?thesis using ReconnectAttempt attempt_attempts [of j i out m] by auto
next
  case (RetryTimerFires j out)
  assume "\<not> resets i s"
  then show ?thesis using RetryTimerFires retryTimer_attempts [of j i out m] by auto
next
  case (ReconnectTimerFires j out)
  assume "\<not> resets i s"
  then show ?thesis using ReconnectTimerFires reconnectTimer_attempts [of j i out m] by auto
next
  case (HealthCheck j healthy)
  then show ?thesis by (simp add: healthCheck_attempts)
next
  case (SessionRecovery j env)
  assume "\<not> resets i s"
  then show ?thesis using SessionRecovery
    by (simp add: attemptsOf_def sessionRecovery_other)
next
  case (DestroyInstance j d)
  assume "\<not> resets i s"
  then show ?thesis using DestroyInstance
    by (simp add: attemptsOf_def destroyInstance_other)
next
  case (CreateInstance uuid arg)
  then show ?thesis by (simp add: createInstance_attempts)
qed

lemma steps_attempts:
  "\<forall>s \<in> set steps. \<not> resets i s \<Longrightarrow> attemptsOf m i \<le> attemptsOf (runSteps steps m) i"
proof (induction steps arbitrary: m)
  case Nil
  then show ?case by (simp add: runSteps_def)
next
  case (Cons s steps)
  have "attemptsOf m i \<le> attemptsOf (runStep s m) i"
    using Cons.prems by (simp add: step_attempts)
  moreover have "attemptsOf (runStep s m) i \<le> attemptsOf (runSteps steps (runStep s m)) i"
    using Cons by simp
  ultimately show ?case by (simp add: runSteps_def)
qed

text \<open>
  C9, as the code has it. The client's \<^verbatim>\<open>disconnected\<close> event sets
  \<^verbatim>\<open>reconnectAttempts\<close> back to 0 whatever its value (the second handler of the event),
  so the counter does decrease in a step that is neither a successful attempt nor the
  status failed.
\<close>

theorem disconnected_event_resets_counter:
  "attemptsOf retryingManager ''a'' = 3
   \<and> map_option status (getInstance retryingManager ''a'') = Some Disconnected
   \<and> attemptsOf (runStep (ClientEvent ''a'' (EvDisconnected ''NAVIGATION'')) retryingManager) ''a'' = 0
   \<and> map_option status
        (getInstance (runStep (ClientEvent ''a'' (EvDisconnected ''NAVIGATION'')) retryingManager) ''a'')
       = Some Disconnected"
  by (simp add: attemptsOf_def clientEvent_def getInstance_modifyInstance)
     (simp add: getInstance_def retryingManager_def disconnectedInstance_def attemptCount_def)

text \<open>
  C9, amended. Over any sequence of steps of the manager none of which is, for the
  instance, the client's \<^verbatim>\<open>disconnected\<close> event, a reconnection attempt whose
  reinitialize succeeds, or the replacement or removal of the instance object (session
  recovery of the wrapper, destroy), \<^verbatim>\<open>reconnectAttempts\<close> does not decrease. The
  \<^verbatim>\<open>disconnected\<close> event and a successful attempt below the bound set it to 0. While the
  status is failed the sweep makes no attempt on the instance and leaves it as it is.
\<close>

theorem reconnectAttempts_monotone_between_resets:
  "((\<forall>s \<in> set steps. \<not> resets i s) \<longrightarrow> attemptsOf m i \<le> attemptsOf (runSteps steps m) i)
   \<and> attemptsOf (runStep (ClientEvent i (EvDisconnected reason)) m) i = 0
   \<and> (getInstance m i = Some inst \<and> \<not> reconnecting inst
        \<and> attemptCount inst < maxReconnectAttempts \<longrightarrow>
         attemptsOf (runStep (ReconnectAttempt i InitResolves) m) i = 0)
   \<and> (getInstance m i = Some inst \<and> status inst = Failed \<longrightarrow>
         getInstance (runStep (SweepTick init) m) i = Some inst)"
proof -
  have a: "attemptsOf (runStep (ClientEvent i (EvDisconnected reason)) m) i = 0"
    by (cases "getInstance m i")
       (simp_all add: attemptsOf_def attemptCount_def clientEvent_def getInstance_modifyInstance)
  have b: "attemptsOf (runStep (ReconnectAttempt i InitResolves) m) i = 0"
    if "getInstance m i = Some inst" "\<not> reconnecting inst"
       "attemptCount inst < maxReconnectAttempts"
    using that attempt_instance [OF that(1,2), of InitResolves i]
    by (simp add: attemptsOf_def attemptCount_def)
  have c: "getInstance (runStep (SweepTick init) m) i = Some inst"
    if "getInstance m i = Some inst" "status inst = Failed"
    using that sweepLoop_not_eligible [of m i inst init "map fst (instances m)" "[]"]
    by (simp add: autoReconnectionSweep_def sweepEligible_def)
  show ?thesis using steps_attempts [of steps i m] a b c by blast
qed

theorem reconnectAttempts_monotone_between_resets_witness:
  "list_all (\<lambda>s. \<not> resets ''a'' s) quietSteps
   \<and> attemptsOf retryingManager ''a'' \<le> attemptsOf (runSteps quietSteps retryingManager) ''a''
   \<and> getInstance retryingManager ''a'' = Some (disconnectedInstance ''a'' True False (Some 3))
   \<and> attemptsOf (runStep (ReconnectAttempt ''a'' InitResolves) retryingManager) ''a'' = 0
   \<and> map_option status (getInstance failedManager ''a'') = Some Failed
   \<and> getInstance (runStep (SweepTick (\<lambda>i. InitResolves)) failedManager) ''a''
       = getInstance failedManager ''a''"
proof -
  have q: "\<forall>s \<in> set quietSteps. \<not> resets ''a'' s"
    by (simp add: quietSteps_def)
  have g: "getInstance retryingManager ''a'' = Some (disconnectedInstance ''a'' True False (Some 3))"
    by (simp add: getInstance_def retryingManager_def)
  have n: "\<not> reconnecting (disconnectedInstance ''a'' True False (Some 3))
           \<and> attemptCount (disconnectedInstance ''a'' True False (Some 3)) < maxReconnectAttempts"
    by (simp add: disconnectedInstance_def attemptCount_def maxReconnectAttempts_def)
  have f: "getInstance failedManager ''a''
             = Some ((disconnectedInstance ''a'' True False (Some 9))\<lparr>status := Failed\<rparr>)"
    by (simp add: getInstance_def failedManager_def)
  have 1: "attemptsOf retryingManager ''a'' \<le> attemptsOf (runSteps quietSteps retryingManager) ''a''"
    using reconnectAttempts_monotone_between_resets [of quietSteps "''a''" retryingManager] q
    by blast
  have 2: "attemptsOf (runStep (ReconnectAttempt ''a'' InitResolves) retryingManager) ''a'' = 0"
    using reconnectAttempts_monotone_between_resets
            [of "[]" "''a''" retryingManager "''x''" "disconnectedInstance ''a'' True False (Some 3)"]
          g n
    by blast
  have 3: "getInstance (runStep (SweepTick (\<lambda>i. InitResolves)) failedManager) ''a''
             = getInstance failedManager ''a''"
    using reconnectAttempts_monotone_between_resets
            [of "[]" "''a''" failedManager "''x''"
                "(disconnectedInstance ''a'' True False (Some 9))\<lparr>status := Failed\<rparr>"
                "\<lambda>i. InitResolves"]
          f
    by simp
  have q': "list_all (\<lambda>s. \<not> resets ''a'' s) quietSteps"
    using q by (simp add: list_all_iff)
  show ?thesis using q' g f 1 2 3 by simp
qed


section \<open>The profile picture pipeline\<close>

lemma setAll_Cons: "setAll ((c, u) # rs) pm = setAll rs (AList.update c u pm)"
  by (simp add: setAll_def)

lemma setAll_Nil: "setAll [] pm = pm"
  by (simp add: setAll_def)

lemma setAll_keys: "fst ` set (setAll rs pm) = fst ` set pm \<union> fst ` set rs"
proof (induction rs arbitrary: pm)
  case Nil
  then show ?case by (simp add: setAll_Nil)
next
  case (Cons r rs)
  obtain c u where r: "r = (c, u)" by (cases r)
  have "fst ` set (setAll (r # rs) pm) = fst ` set (AList.update c u pm) \<union> fst ` set rs"
    using Cons [of "AList.update c u pm"] r by (simp add: setAll_Cons)
  also have "\<dots> = ({c} \<union> fst ` set pm) \<union> fst ` set rs"
    by (simp only: dom_update)
  finally show ?case using r by auto
qed

lemma setAll_distinct: "distinct (map fst pm) \<Longrightarrow> distinct (map fst (setAll rs pm))"
  by (induction rs arbitrary: pm) (auto simp: setAll_Nil setAll_Cons distinct_update)

lemma setAll_other: "k \<notin> fst ` set rs \<Longrightarrow> map_of (setAll rs pm) k = map_of pm k"
  by (induction rs arbitrary: pm) (auto simp: setAll_Nil setAll_Cons update_conv')

lemma setAll_null:
  "map_of (setAll (map (\<lambda>c. (c, None)) batch) pm) k
     = (if k \<in> set batch then Some None else map_of pm k)"
  by (induction batch arbitrary: pm) (auto simp: setAll_Nil setAll_Cons update_conv' setAll_other image_iff)

lemma startAll_length: "length (fst (startAll now i cs m)) = length cs"
proof (induction cs arbitrary: m)
  case Nil
  then show ?case by simp
next
  case (Cons c cs)
  obtain s m1 where a: "startProfilePic now i c m = (s, m1)"
    by (cases "startProfilePic now i c m")
  obtain ss m2 where b: "startAll now i cs m1 = (ss, m2)"
    by (cases "startAll now i cs m1")
  have "length ss = length cs" using Cons [of m1] b by simp
  then show ?case using a b by simp
qed

lemma settleAll_keys: "map fst (fst (settleAll env i xs m)) = map fst xs"
  by (induction env i xs m rule: settleAll.induct) (auto split: prod.splits)

lemma processBatch_keys:
  "fst ` set (fst (processBatch env i bn batch (pm, m))) = fst ` set pm \<union> set batch"
proof -
  obtain ss m1 where st: "startAll (batchStart env bn) i batch m = (ss, m1)"
    by (cases "startAll (batchStart env bn) i batch m")
  have len: "length ss = length batch"
    using startAll_length [of "batchStart env bn" i batch m] st by simp
  obtain rs m2 where se: "settleAll env i (zip batch ss) m1 = (rs, m2)"
    by (cases "settleAll env i (zip batch ss) m1")
  have "map fst rs = batch"
    using settleAll_keys [of env i "zip batch ss" m1] se len by simp
  then have "fst ` set rs = set batch"
    by (metis set_map)
  then show ?thesis using st se
    by (auto simp: processBatch_def setAll_keys image_iff)
qed

lemma processBatch_distinct:
  "distinct (map fst pm) \<Longrightarrow> distinct (map fst (fst (processBatch env i bn batch (pm, m))))"
  by (simp add: processBatch_def setAll_distinct split: prod.splits)

lemma processBatch_other:
  "k \<notin> set batch \<Longrightarrow> map_of (fst (processBatch env i bn batch (pm, m))) k = map_of pm k"
proof -
  assume k: "k \<notin> set batch"
  obtain ss m1 where st: "startAll (batchStart env bn) i batch m = (ss, m1)"
    by (cases "startAll (batchStart env bn) i batch m")
  have len: "length ss = length batch"
    using startAll_length [of "batchStart env bn" i batch m] st by simp
  obtain rs m2 where se: "settleAll env i (zip batch ss) m1 = (rs, m2)"
    by (cases "settleAll env i (zip batch ss) m1")
  have "map fst rs = batch"
    using settleAll_keys [of env i "zip batch ss" m1] se len by simp
  then have "fst ` set rs = set batch"
    by (metis set_map)
  then show ?thesis using st se k
    by (simp add: processBatch_def setAll_other setAll_null)
qed

lemma processBatch_timeout:
  "batchTimesOut env bn \<Longrightarrow> k \<in> set batch \<Longrightarrow>
   map_of (fst (processBatch env i bn batch (pm, m))) k = Some None"
  by (simp add: processBatch_def setAll_null split: prod.splits)


lemma drop_batch_split:
  "set (drop k ids) = set (take b (drop k ids)) \<union> set (drop (k + b) ids)"
proof -
  have "set (take b (drop k ids) @ drop b (drop k ids)) = set (drop k ids)"
    by (simp only: append_take_drop_id)
  then have "set (drop k ids) = set (take b (drop k ids)) \<union> set (drop b (drop k ids))"
    by (simp only: set_append)
  then show ?thesis by (simp add: add.commute)
qed

lemma batchLoop_step:
  "k < length ids \<Longrightarrow>
   batchLoop env i ids b k s
     = batchLoop env i ids b (k + b) (processBatch env i (k div b + 1) (take b (drop k ids)) s)"
  by (subst batchLoop.simps) simp

lemma batchLoop_done: "\<not> k < length ids \<Longrightarrow> batchLoop env i ids b k s = Some s"
  by (subst batchLoop.simps) simp

lemma batchLoop_returns:
  assumes "0 < b"
  shows "\<exists>pm' m'. batchLoop env i ids b k (pm, m) = Some (pm', m')
       \<and> fst ` set pm' = fst ` set pm \<union> set (drop k ids)
       \<and> (distinct (map fst pm) \<longrightarrow> distinct (map fst pm'))
       \<and> (\<forall>c. c \<notin> set (drop k ids) \<longrightarrow> map_of pm' c = map_of pm c)"
proof (induction "length ids - k" arbitrary: k pm m rule: less_induct)
  case less
  show ?case
  proof (cases "k < length ids")
    case False
    then show ?thesis by (simp add: batchLoop_done)
  next
    case True
    let ?batch = "take b (drop k ids)"
    obtain pm1 m1 where pb: "processBatch env i (k div b + 1) ?batch (pm, m) = (pm1, m1)"
      by (cases "processBatch env i (k div b + 1) ?batch (pm, m)")
    have dec: "length ids - (k + b) < length ids - k"
      using True assms by arith
    from less [OF dec, of pm1 m1] obtain pm' m' where
      r: "batchLoop env i ids b (k + b) (pm1, m1) = Some (pm', m')"
      and keys: "fst ` set pm' = fst ` set pm1 \<union> set (drop (k + b) ids)"
      and dist: "distinct (map fst pm1) \<longrightarrow> distinct (map fst pm')"
      and other: "\<forall>c. c \<notin> set (drop (k + b) ids) \<longrightarrow> map_of pm' c = map_of pm1 c"
      by blast
    have k1: "fst ` set pm1 = fst ` set pm \<union> set ?batch"
      using processBatch_keys [of env i "k div b + 1" ?batch pm m] pb by simp
    have d1: "distinct (map fst pm) \<longrightarrow> distinct (map fst pm1)"
      using processBatch_distinct [of pm env i "k div b + 1" ?batch m] pb by simp
    have o1: "\<forall>c. c \<notin> set ?batch \<longrightarrow> map_of pm1 c = map_of pm c"
      using processBatch_other [of _ ?batch env i "k div b + 1" pm m] pb by simp
    have sp: "set (drop k ids) = set ?batch \<union> set (drop (k + b) ids)"
      by (rule drop_batch_split)
    have 1: "batchLoop env i ids b k (pm, m) = Some (pm', m')"
      using True pb r by (simp add: batchLoop_step)
    have 2: "fst ` set pm' = fst ` set pm \<union> set (drop k ids)"
      unfolding keys k1 sp by (simp add: Un_assoc)
    have 3: "\<forall>c. c \<notin> set (drop k ids) \<longrightarrow> map_of pm' c = map_of pm c"
      using other o1 sp by simp
    show ?thesis using 1 2 3 d1 dist by simp
  qed
qed

lemma batchLoop_timeouts:
  assumes "0 < b" and "distinct ids"
    and "batchLoop env i ids b k (pm, m) = Some (pm', m')"
    and "k + n * b < length ids" and "batchTimesOut env ((k + n * b) div b + 1)"
    and "c \<in> set (take b (drop (k + n * b) ids))"
  shows "map_of pm' c = Some None"
  using assms(3-6)
proof (induction n arbitrary: k pm m)
  case 0
  let ?batch = "take b (drop k ids)"
  obtain pm1 m1 where pb: "processBatch env i (k div b + 1) ?batch (pm, m) = (pm1, m1)"
    by (cases "processBatch env i (k div b + 1) ?batch (pm, m)")
  have kl: "k < length ids" using 0 by simp
  have c1: "map_of pm1 c = Some None"
    using processBatch_timeout [of env "k div b + 1" c ?batch i pm m] pb 0 by simp
  have "distinct (take b (drop k ids) @ drop b (drop k ids))"
    using assms(2) by (simp only: append_take_drop_id distinct_drop)
  then have "c \<notin> set (drop (k + b) ids)"
    using 0(4) by (auto simp: add.commute)
  moreover have "batchLoop env i ids b (k + b) (pm1, m1) = Some (pm', m')"
    using 0(1) kl pb by (simp add: batchLoop_step)
  ultimately show ?case
    using batchLoop_returns [OF assms(1), of env i ids "k + b" pm1 m1] c1 by fastforce
next
  case (Suc n)
  let ?batch = "take b (drop k ids)"
  obtain pm1 m1 where pb: "processBatch env i (k div b + 1) ?batch (pm, m) = (pm1, m1)"
    by (cases "processBatch env i (k div b + 1) ?batch (pm, m)")
  have kl: "k < length ids" using Suc.prems by simp
  have e: "k + Suc n * b = (k + b) + n * b" by simp
  have r: "batchLoop env i ids b (k + b) (pm1, m1) = Some (pm', m')"
    using Suc.prems(1) kl pb by (simp add: batchLoop_step)
  show ?case
    using Suc.IH [OF r] Suc.prems(2-4) unfolding e by blast
qed


text \<open>
  C4, as the code has it. The result is a \<^verbatim>\<open>Map\<close> keyed by contact id, so an id that
  occurs twice in the input has one entry: for the two ids \<^verbatim>\<open>c1\<close>, \<^verbatim>\<open>c1\<close> the mapping
  has one entry, not two.
\<close>

theorem repeated_id_has_one_entry:
  "length [''c1'', ''c1''] = 2
   \<and> map_option fst (getMultipleProfilePics picEnv ''a'' [''c1'', ''c1''] 5 exampleManager)
       = Some [(''c1'', Some ''https://pps/c1.jpg'')]"
  by code_simp

text \<open>
  C4, amended. For every list of contact ids and every batch size of at least one,
  \<^verbatim>\<open>getMultipleProfilePics\<close> returns, and the keys of the returned mapping are exactly
  the ids of the list, each key once, each mapped to a url or to \<^verbatim>\<open>null\<close>: as many
  entries as there are different ids, which is N when the N ids are pairwise different.
  No requested id is left out; and when the ids are pairwise different, every id of a
  batch whose batch timeout expires is mapped to \<^verbatim>\<open>null\<close>.
\<close>

theorem getMultipleProfilePics_covers_requested_ids:
  assumes "0 < batchSize"
  shows "\<exists>pm m'. getMultipleProfilePics env i contactIds batchSize m = Some (pm, m')
       \<and> set (map fst pm) = set contactIds \<and> distinct (map fst pm)
       \<and> length pm = card (set contactIds)
       \<and> (distinct contactIds \<longrightarrow>
            length pm = length contactIds
            \<and> (\<forall>n c. n * batchSize < length contactIds \<and> batchTimesOut env (n + 1)
                       \<and> c \<in> set (take batchSize (drop (n * batchSize) contactIds))
                   \<longrightarrow> map_of pm c = Some None))"
proof -
  from batchLoop_returns [OF assms, of env i contactIds 0 "[]" m] obtain pm m' where
    r: "batchLoop env i contactIds batchSize 0 ([], m) = Some (pm, m')"
    and keys: "fst ` set pm = set contactIds"
    and dist: "distinct (map fst pm)"
    by auto
  have len: "length pm = card (set contactIds)"
    using keys dist distinct_card [of "map fst pm"] by simp
  have full: "length pm = length contactIds" if "distinct contactIds"
    using that len by (simp add: distinct_card)
  have null: "map_of pm c = Some None"
    if "distinct contactIds" "n * batchSize < length contactIds" "batchTimesOut env (n + 1)"
       "c \<in> set (take batchSize (drop (n * batchSize) contactIds))" for n c
    using batchLoop_timeouts [OF assms that(1) r, of n c] that(2-4) assms by simp
  have "getMultipleProfilePics env i contactIds batchSize m = Some (pm, m')"
    using r by (simp add: getMultipleProfilePics_def)
  moreover have "set (map fst pm) = set contactIds"
    using keys by simp
  ultimately show ?thesis
    using dist len full null by blast
qed

theorem getMultipleProfilePics_covers_requested_ids_witness:
  "(0::nat) < 2 \<and> distinct fiveIds
   \<and> map_option fst (getMultipleProfilePics picEnv ''a'' fiveIds 2 exampleManager)
       = Some [(''c1'', Some ''https://pps/c1.jpg''), (''c2'', None), (''c3'', None),
               (''c4'', None), (''c5'', None)]
   \<and> (\<exists>pm m'. getMultipleProfilePics picEnv ''a'' fiveIds 2 exampleManager = Some (pm, m')
          \<and> length pm = 5 \<and> map_of pm ''c3'' = Some None \<and> map_of pm ''c4'' = Some None)"
proof -
  have p: "(0::nat) < 2" by simp
  have d: "distinct fiveIds" by (simp add: fiveIds_def)
  have t: "batchTimesOut picEnv (1 + 1)" by (simp add: picEnv_def)
  have n: "1 * 2 < length fiveIds" by (simp add: fiveIds_def)
  have b: "''c3'' \<in> set (take 2 (drop (1 * 2) fiveIds))"
          "''c4'' \<in> set (take 2 (drop (1 * 2) fiveIds))"
    by (simp_all add: fiveIds_def)
  from getMultipleProfilePics_covers_requested_ids [OF p, of picEnv "''a''" fiveIds exampleManager]
  obtain pm m' where
    r: "getMultipleProfilePics picEnv ''a'' fiveIds 2 exampleManager = Some (pm, m')"
    and rest: "distinct fiveIds \<longrightarrow>
            length pm = length fiveIds
            \<and> (\<forall>n c. n * 2 < length fiveIds \<and> batchTimesOut picEnv (n + 1)
                       \<and> c \<in> set (take 2 (drop (n * 2) fiveIds))
                   \<longrightarrow> map_of pm c = Some None)"
    by blast
  have len: "length pm = length fiveIds"
    and null: "\<And>n c. n * 2 < length fiveIds \<Longrightarrow> batchTimesOut picEnv (n + 1)
                 \<Longrightarrow> c \<in> set (take 2 (drop (n * 2) fiveIds)) \<Longrightarrow> map_of pm c = Some None"
    using rest d by blast+
  have l5: "length pm = 5" using len by (simp add: fiveIds_def)
  have c3: "map_of pm ''c3'' = Some None"
    using null [OF n t b(1)] .
  have c4: "map_of pm ''c4'' = Some None"
    using null [OF n t b(2)] .
  have e: "map_option fst (getMultipleProfilePics picEnv ''a'' fiveIds 2 exampleManager)
       = Some [(''c1'', Some ''https://pps/c1.jpg''), (''c2'', None), (''c3'', None),
               (''c4'', None), (''c5'', None)]"
    by code_simp
  have ex: "\<exists>pm m'. getMultipleProfilePics picEnv ''a'' fiveIds 2 exampleManager = Some (pm, m')
          \<and> length pm = 5 \<and> map_of pm ''c3'' = Some None \<and> map_of pm ''c4'' = Some None"
    using r l5 c3 c4 by blast
  show ?thesis using p d e ex by blast
qed


section \<open>The profile picture cache\<close>

lemma settleProfilePic_eq:
  "settleProfilePic env i c m =
     (lookupValue (lookup env c),
      setCache (cacheKey i c) \<lparr>url = lookupValue (lookup env c), timestamp = settledAt env c\<rparr> m)"
  by (cases "lookup env c") (simp_all add: settleProfilePic_def)

text \<open>
  C5, as the code has it. With no cache entry for the pair, a lookup for an instance
  that is not ready (here \<^verbatim>\<open>a\<close> is disconnected) returns \<^verbatim>\<open>null\<close> from inside the \<^verbatim>\<open>try\<close>:
  the client is not consulted and nothing is written to the cache.
\<close>

theorem lookup_for_unready_instance_skips_client_and_cache:
  "map_of (profilePicCache sweepManager) (cacheKey ''a'' ''c1'') = None
   \<and> getProfilePicWithCache picEnv 0 ''a'' ''c1'' sweepManager = (None, sweepManager)"
  by (simp add: getProfilePicWithCache_def startProfilePic_def getInstance_def cacheKey_def
      sweepManager_def disconnectedInstance_def)

text \<open>
  C5, amended. For every pair of instance id and contact id: when the cache has an
  entry for the pair that is younger than 30 minutes, the lookup returns the cached
  value, url or \<^verbatim>\<open>null\<close>, and leaves the manager as it was (the client is not called).
  When the entry is absent or at least 30 minutes old and the instance is registered
  and ready, the client is called once and the outcome is written to the cache under
  the pair, \<^verbatim>\<open>null\<close> for a rejected or timed-out lookup like the value of a successful
  one. When the entry is absent or at least 30 minutes old and the instance is not
  registered or not ready, the lookup returns \<^verbatim>\<open>null\<close> without calling the client and
  without writing to the cache.
\<close>

theorem getProfilePicWithCache_cases:
  "cacheExpiry = 30 * 60 * 1000
   \<and> (map_of (profilePicCache m) (cacheKey i c) = Some e \<and> now - timestamp e < cacheExpiry \<longrightarrow>
        getProfilePicWithCache env now i c m = (url e, m))
   \<and> ((map_of (profilePicCache m) (cacheKey i c) = None
         \<or> (\<exists>e. map_of (profilePicCache m) (cacheKey i c) = Some e \<and> cacheExpiry \<le> now - timestamp e))
        \<longrightarrow>
        (getInstance m i = Some inst \<and> status inst = Ready \<longrightarrow>
           getProfilePicWithCache env now i c m =
             (lookupValue (lookup env c),
              m\<lparr>clientCalls := clientCalls m @ [(i, c)],
                profilePicCache :=
                  AList.update (cacheKey i c)
                    \<lparr>url = lookupValue (lookup env c), timestamp = settledAt env c\<rparr>
                    (profilePicCache m)\<rparr>))
        \<and> (getInstance m i = None \<or> (getInstance m i = Some inst \<and> status inst \<noteq> Ready) \<longrightarrow>
             getProfilePicWithCache env now i c m = (None, m)))"
  by (auto simp: cacheExpiry_def getProfilePicWithCache_def startProfilePic_def Let_def
      settleProfilePic_eq setCache_def)

theorem getProfilePicWithCache_cases_witness:
  "getProfilePicWithCache picEnv 1800999 ''a'' ''c9'' cachedManager = (None, cachedManager)
   \<and> getProfilePicWithCache picEnv 1800999 ''a'' ''c1'' cachedManager
       = (Some ''https://pps/old.jpg'', cachedManager)
   \<and> getProfilePicWithCache picEnv 1801000 ''a'' ''c1'' cachedManager
       = (Some ''https://pps/c1.jpg'',
          cachedManager\<lparr>clientCalls := [(''a'', ''c1'')],
            profilePicCache :=
              [(''a:c9'', \<lparr>url = None, timestamp = 1000\<rparr>),
               (''a:c1'', \<lparr>url = Some ''https://pps/c1.jpg'', timestamp = 5000\<rparr>)]\<rparr>)
   \<and> getProfilePicWithCache picEnv 1801000 ''a'' ''c2'' cachedManager
       = (None,
          cachedManager\<lparr>clientCalls := [(''a'', ''c2'')],
            profilePicCache :=
              [(''a:c9'', \<lparr>url = None, timestamp = 1000\<rparr>),
               (''a:c1'', \<lparr>url = Some ''https://pps/old.jpg'', timestamp = 1000\<rparr>),
               (''a:c2'', \<lparr>url = None, timestamp = 5000\<rparr>)]\<rparr>)
   \<and> getProfilePicWithCache picEnv 1801000 ''b'' ''c1'' cachedManager = (None, cachedManager)"
proof -
  have k: "cacheKey ''a'' ''c9'' = ''a:c9''" "cacheKey ''a'' ''c1'' = ''a:c1''"
          "cacheKey ''a'' ''c2'' = ''a:c2''" "cacheKey ''b'' ''c1'' = ''b:c1''"
    by (simp_all add: cacheKey_def)
  have c: "profilePicCache cachedManager =
       [(''a:c9'', \<lparr>url = None, timestamp = 1000\<rparr>),
        (''a:c1'', \<lparr>url = Some ''https://pps/old.jpg'', timestamp = 1000\<rparr>)]"
    and cc: "clientCalls cachedManager = []"
    by (simp_all add: cachedManager_def exampleManager_def)
  have g: "getInstance cachedManager ''a'' = Some exampleInstance" "status exampleInstance = Ready"
          "getInstance cachedManager ''b'' = None"
    by (simp_all add: getInstance_def cachedManager_def exampleManager_def exampleInstance_def)
  have l: "lookupValue (lookup picEnv ''c1'') = Some ''https://pps/c1.jpg''"
          "lookupValue (lookup picEnv ''c2'') = None" "settledAt picEnv x = 5000" for x
    by (simp_all add: picEnv_def)
  have 1: "getProfilePicWithCache picEnv 1800999 ''a'' ''c9'' cachedManager = (None, cachedManager)"
    using getProfilePicWithCache_cases
            [of cachedManager "''a''" "''c9''" "\<lparr>url = None, timestamp = 1000\<rparr>" 1800999 picEnv]
    by (simp add: k c cacheExpiry_def)
  have 2: "getProfilePicWithCache picEnv 1800999 ''a'' ''c1'' cachedManager
       = (Some ''https://pps/old.jpg'', cachedManager)"
    using getProfilePicWithCache_cases
            [of cachedManager "''a''" "''c1''"
                "\<lparr>url = Some ''https://pps/old.jpg'', timestamp = 1000\<rparr>" 1800999 picEnv]
    by (simp add: k c cacheExpiry_def)
  have 3: "getProfilePicWithCache picEnv 1801000 ''a'' ''c1'' cachedManager
       = (Some ''https://pps/c1.jpg'',
          cachedManager\<lparr>clientCalls := [(''a'', ''c1'')],
            profilePicCache :=
              [(''a:c9'', \<lparr>url = None, timestamp = 1000\<rparr>),
               (''a:c1'', \<lparr>url = Some ''https://pps/c1.jpg'', timestamp = 5000\<rparr>)]\<rparr>)"
    using getProfilePicWithCache_cases
            [of cachedManager "''a''" "''c1''" "\<lparr>url = None, timestamp = 0\<rparr>" 1801000 picEnv
                exampleInstance] g
    by (simp add: k c cc l cacheExpiry_def)
  have 4: "getProfilePicWithCache picEnv 1801000 ''a'' ''c2'' cachedManager
       = (None,
          cachedManager\<lparr>clientCalls := [(''a'', ''c2'')],
            profilePicCache :=
              [(''a:c9'', \<lparr>url = None, timestamp = 1000\<rparr>),
               (''a:c1'', \<lparr>url = Some ''https://pps/old.jpg'', timestamp = 1000\<rparr>),
               (''a:c2'', \<lparr>url = None, timestamp = 5000\<rparr>)]\<rparr>)"
    using getProfilePicWithCache_cases
            [of cachedManager "''a''" "''c2''" "\<lparr>url = None, timestamp = 0\<rparr>" 1801000 picEnv
                exampleInstance] g
    by (simp add: k c cc l cacheExpiry_def)
  have 5: "getProfilePicWithCache picEnv 1801000 ''b'' ''c1'' cachedManager = (None, cachedManager)"
    using getProfilePicWithCache_cases
            [of cachedManager "''b''" "''c1''" "\<lparr>url = None, timestamp = 0\<rparr>" 1801000 picEnv
                exampleInstance] g
    by (simp add: k c cacheExpiry_def)
  show ?thesis using 1 2 3 4 5 by simp
qed

section \<open>destroyInstance\<close>

lemma destroyInstance_resolved:
  assumes "getInstance m i \<noteq> None"
  shows "\<exists>m'. destroyInstance None i m = (Inr (), m')
       \<and> getInstance m' i = None \<and> i \<notin> set (sessionDirs m')
       \<and> emitted m' = emitted m @ [InstanceDestroyed i]"
  using assms
  by (auto simp: destroyInstance_def Let_def getInstance_def deleteInstance_def delete_conv')

text \<open>
  C7, at a failing teardown. The instance \<^verbatim>\<open>a\<close> is registered and its
  \<^verbatim>\<open>client.destroy()\<close> rejects: \<^verbatim>\<open>destroyInstance\<close> rethrows the error of the teardown and
  leaves the manager as it was, with the registry entry, the session directory and no
  destroyed notification.
\<close>

theorem destroyInstance_rethrows_teardown_error:
  "destroyInstance (Some ''Protocol error (Browser.close): Target closed.'') ''a'' exampleManager
     = (Inl ''Protocol error (Browser.close): Target closed.'', exampleManager)
   \<and> getInstance exampleManager ''a'' = Some exampleInstance
   \<and> sessionDirs exampleManager = [''a'']
   \<and> emitted exampleManager = []"
  by (simp add: destroyInstance_def getInstance_def exampleManager_def)


section \<open>The chat listing\<close>

lemma js_slice_page:
  "0 \<le> offset \<Longrightarrow> 0 \<le> limit \<Longrightarrow>
   js_slice offset (offset + limit) xs = take (nat limit) (drop (nat offset) xs)"
proof -
  assume o: "0 \<le> offset" and l: "0 \<le> limit"
  let ?len = "int (length xs)"
  show ?thesis
  proof (cases "offset \<le> ?len")
    case False
    then show ?thesis using o l by (simp add: js_slice_def Let_def min_def)
  next
    case True
    have "take (nat (min (offset + limit) ?len - offset)) (drop (nat offset) xs)
            = take (nat limit) (drop (nat offset) xs)"
    proof (cases "offset + limit \<le> ?len")
      case True
      then show ?thesis by (simp add: min_def)
    next
      case False
      then have "nat (?len - offset) = length (drop (nat offset) xs)"
        using o \<open>offset \<le> ?len\<close> by (simp add: nat_diff_distrib')
      moreover have "length (drop (nat offset) xs) \<le> nat limit"
        using False o l by simp
      ultimately show ?thesis using False by (simp add: min_def)
    qed
    then show ?thesis using o l True by (simp add: js_slice_def Let_def min_def)
  qed
qed

lemma sortChats_sorted:
  "sorted (map (\<lambda>c. - timestampOrZero c) (sortChats allChats))
   \<and> mset (sortChats allChats) = mset allChats"
  by (simp add: sortChats_def)

lemma sortChats_stable:
  "filter (\<lambda>c. timestampOrZero c = t) (sortChats allChats) = filter (\<lambda>c. timestampOrZero c = t) allChats"
  using sort_key_stable [of "\<lambda>c. - timestampOrZero c" "- t" allChats]
  by (simp add: sortChats_def)

lemma js_ceil_div_pos:
  "0 < b \<Longrightarrow> \<exists>p. js_ceil_div a b = Num p \<and> (p - 1) * b < a \<and> a \<le> p * b"
proof -
  assume b: "0 < b"
  define q where "q = (- a) div b"
  define r where "r = (- a) mod b"
  have e: "q * b + r = - a" by (simp add: q_def r_def)
  have r: "0 \<le> r" "r < b" using b by (simp_all add: r_def)
  have "(- q - 1) * b < a \<and> a \<le> (- q) * b"
    using e r by (simp add: algebra_simps)
  then show ?thesis using b by (simp add: js_ceil_div_def q_def)
qed


lemma routeLimit_bounds: "routeLimit parsed \<le> 200 \<and> routeLimit None = 50 \<and> routeLimit (Some 0) = 50"
  by (simp add: routeLimit_def)

lemma routeOffset_bounds: "0 \<le> routeOffset parsed \<and> routeOffset None = 0"
  by (simp add: routeOffset_def)

lemma chatsBatchSize_positive: "0 < chatsBatchSize n"
  by (simp add: chatsBatchSize_def)

lemma cd_id_simps:
  "cd_id (toChatData c) = chatId c" "cd_id (fillProfilePic pm d) = cd_id d"
  by (simp_all add: toChatData_def fillProfilePic_def)

text \<open>
  For a limit of at least one and an offset that is not negative the listing is the
  spec's pagination: the page is the chats ranked from \<open>offset\<close> to \<open>offset + limit\<close> of
  the chats sorted by descending timestamp (a missing timestamp as 0), split into
  contacts and groups in that order, with \<^verbatim>\<open>hasMore\<close> and \<^verbatim>\<open>totalPages\<close> as specified.
\<close>

lemma getChats_page_for_positive_limit:
  assumes "requireReady m i = Inr inst" and "0 < limit" and "0 \<le> offset"
  shows "\<exists>res m'. getChatsOperation env (Inr allChats) i pics limit offset m = Some (Inr res, m')
       \<and> map cd_id (contacts res)
           = map chatId (filter (\<lambda>c. \<not> isGroup c)
               (take (nat limit) (drop (nat offset) (sortChats allChats))))
       \<and> map cd_id (groups res)
           = map chatId (filter isGroup
               (take (nat limit) (drop (nat offset) (sortChats allChats))))
       \<and> returnedCount (pageInfo res)
           = length (take (nat limit) (drop (nat offset) (sortChats allChats)))
       \<and> hasMore (pageInfo res) = (offset + limit < int (length allChats))
       \<and> totalPages (pageInfo res) = js_ceil_div (int (length allChats)) limit
       \<and> totalChats res = length allChats"
proof -
  let ?page = "take (nat limit) (drop (nat offset) (sortChats allChats))"
  let ?cs = "map toChatData (filter (\<lambda>c. \<not> isGroup c) ?page)"
  let ?gs = "map toChatData (filter isGroup ?page)"
  let ?ids = "map cd_id (?cs @ ?gs)"
  let ?info = "makePagination (length allChats) (length ?page) limit offset"
  have page: "paginatedChats allChats limit offset = ?page"
    using assms(2,3) by (simp add: paginatedChats_def js_slice_page)
  have unfolded: "getChatsOperation env (Inr allChats) i pics limit offset m =
      (if pics \<and> ?ids \<noteq> []
       then (case getMultipleProfilePics env i ?ids (chatsBatchSize (length ?ids)) m of
               None \<Rightarrow> None
             | Some (pm, m1) \<Rightarrow>
                 Some (Inr \<lparr>contacts = map (fillProfilePic pm) ?cs,
                            groups = map (fillProfilePic pm) ?gs,
                            totalChats = length allChats, pageInfo = ?info\<rparr>, m1))
       else Some (Inr \<lparr>contacts = ?cs, groups = ?gs, totalChats = length allChats,
                       pageInfo = ?info\<rparr>, m))"
    by (simp only: getChatsOperation_def Let_def page assms(1) sum.case)
  have info: "returnedCount ?info = length ?page"
       "hasMore ?info = (offset + limit < int (length allChats))"
       "totalPages ?info = js_ceil_div (int (length allChats)) limit"
    by (simp_all add: makePagination_def Let_def)
  show ?thesis
  proof (cases "pics \<and> ?ids \<noteq> []")
    case False
    have "getChatsOperation env (Inr allChats) i pics limit offset m
            = Some (Inr \<lparr>contacts = ?cs, groups = ?gs, totalChats = length allChats,
                         pageInfo = ?info\<rparr>, m)"
      unfolding unfolded if_not_P [OF False] ..
    then show ?thesis
      using info by (simp add: cd_id_simps)
  next
    case True
    obtain pm m' where
      r: "getMultipleProfilePics env i ?ids (chatsBatchSize (length ?ids)) m = Some (pm, m')"
      using batchLoop_returns [OF chatsBatchSize_positive, of env i ?ids "length ?ids" 0 "[]" m]
      unfolding getMultipleProfilePics_def by blast
    have "getChatsOperation env (Inr allChats) i pics limit offset m
            = Some (Inr \<lparr>contacts = map (fillProfilePic pm) ?cs,
                         groups = map (fillProfilePic pm) ?gs,
                         totalChats = length allChats, pageInfo = ?info\<rparr>, m')"
      unfolding unfolded if_P [OF True] r by (simp only: option.case prod.case)
    then show ?thesis
      using info by (simp add: cd_id_simps)
  qed
qed

text \<open>
  C6, at a negative limit. The chats route passes \<^verbatim>\<open>limit=-1\<close> on:
  \<^verbatim>\<open>Math.min(parseInt('-1') || 50, 200)\<close> is -1. Over three chats, with offset 0,
  \<^verbatim>\<open>slice(0, -1)\<close> is the first two chats of the sorted list, so the page returned has two
  chats, where the chats ranked from 0 to -1 are none; \<^verbatim>\<open>totalPages\<close> is -3.
\<close>

theorem negative_limit_returns_all_but_the_last:
  "routeLimit (Some (- 1)) = - 1 \<and> routeOffset None = 0
   \<and> map chatId (sortChats threeChats) = [''3@c.us'', ''1@c.us'', ''2@g.us'']
   \<and> map_option fst
        (getChatsOperation picEnv (Inr threeChats) ''a'' False (routeLimit (Some (- 1)))
           (routeOffset None) exampleManager)
       = Some (Inr \<lparr>contacts =
                      [\<lparr>cd_id = ''3@c.us'', cd_isGroup = False, cd_timestamp = Some 30,
                        profilePicUrl = None\<rparr>,
                       \<lparr>cd_id = ''1@c.us'', cd_isGroup = False, cd_timestamp = Some 20,
                        profilePicUrl = None\<rparr>],
                    groups = [], totalChats = 3,
                    pageInfo = \<lparr>pg_limit = - 1, pg_offset = 0, hasMore = True,
                                nextOffset = Some (- 1), currentPage = Num 1,
                                totalPages = Num (- 3), returnedCount = 2\<rparr>\<rparr>)"
  by code_simp

end
